theory Spec2Isabelle
  imports Complex_Main
begin

section \<open>Values that cross the bridge\<close>

text \<open>
  Command parameters, results and the bodies of completion reports are JavaScript values
  that travel as JSON. A number is the real it denotes; an object is the association list
  of its properties, each name held once.
\<close>

datatype json =
    JNull
  | JBool bool
  | JNum real
  | JStr string
  | JArr "json list"
  | JObj "(string \<times> json) list"

text \<open>
  \<open>undefined\<close> is \<open>None\<close>. The conditional \<open>error ? 'failed' : 'completed'\<close> tests
  JavaScript truthiness: \<open>undefined\<close>, \<open>null\<close>, \<open>false\<close>, \<open>0\<close> and the empty string are falsy,
  every array and object is truthy.
\<close>

fun js_truthy :: "json option \<Rightarrow> bool" where
  "js_truthy None = False"
| "js_truthy (Some JNull) = False"
| "js_truthy (Some (JBool b)) = b"
| "js_truthy (Some (JNum x)) = (x \<noteq> 0)"
| "js_truthy (Some (JStr s)) = (s \<noteq> [])"
| "js_truthy (Some (JArr xs)) = True"
| "js_truthy (Some (JObj kvs)) = True"

text \<open>
  Reading a property \<open>v.k\<close>: on \<open>null\<close> the read throws a TypeError (\<open>Inl\<close>), on an object
  it yields the property or \<open>undefined\<close>, on any other value it yields \<open>undefined\<close> (none of
  the names read by the bridge is a built-in property of numbers, strings, booleans or
  arrays).
\<close>

fun js_get :: "json \<Rightarrow> string \<Rightarrow> string + json option" where
  "js_get JNull k = Inl ''TypeError''"
| "js_get (JObj kvs) k = Inr (map_of kvs k)"
| "js_get v k = Inr None"

section \<open>The command queue (command bridge server)\<close>

datatype status = pending | executing | completed | failed

text \<open>
  \<open>queueCommand\<close> takes an \<open>Omit<DesignCommand, 'id' | 'status' | 'createdAt'>\<close> and builds
  the stored command by spreading it under the three generated fields, so the stored
  command is the record extension of what the producer passed. The interface declares
  \<open>type\<close> and \<open>params\<close> as required, but nothing at run time checks the object that is
  spread: a property the caller left out stays absent, which is \<open>None\<close> here. The field
  \<open>error\<close> is declared a string; the relay stores whatever JSON value the completion
  report carries, so it is a JSON value here.
\<close>

record CommandSpec =
  type :: "string option"
  params :: "json option"
  result :: "json option"
  error :: "json option"
  completedAt :: "nat option"

record DesignCommand = CommandSpec +
  id_c :: string
  status :: status
  createdAt :: nat

record CommandQueue =
  commands :: "DesignCommand list"
  fileKey :: "string option"

definition empty_queue :: CommandQueue where
  "empty_queue = \<lparr>commands = [], fileKey = None\<rparr>"

subsection \<open>Identifiers\<close>

text \<open>
  The id is \<open>`cmd_${Date.now()}_${Math.random().toString(36).substr(2, 9)}`\<close>: the clock
  reading in decimal and up to nine base-36 digits of a random draw. Both are inputs of
  the model: \<open>now_id\<close> is the clock reading used for the id, \<open>random_suffix\<close> the digits
  drawn, \<open>now_created\<close> the second clock reading, stored as \<open>createdAt\<close>.
\<close>

record entropy =
  now_id :: nat
  random_suffix :: string
  now_created :: nat

definition digit_char :: "nat \<Rightarrow> char" where
  "digit_char d = ''0123456789'' ! d"

fun string_of_nat :: "nat \<Rightarrow> string" where
  "string_of_nat n =
     (if n < 10 then [digit_char n]
      else string_of_nat (n div 10) @ [digit_char (n mod 10)])"

declare string_of_nat.simps [simp del]

definition command_id :: "nat \<Rightarrow> string \<Rightarrow> string" where
  "command_id t r = ''cmd_'' @ string_of_nat t @ ''_'' @ r"

text \<open>Reading a decimal numeral back, digit by digit.\<close>

definition digit_val :: "char \<Rightarrow> nat" where
  "digit_val c = length (takeWhile (\<lambda>d. d \<noteq> c) ''0123456789'')"

definition nat_of_string :: "string \<Rightarrow> nat" where
  "nat_of_string s = foldl (\<lambda>a c. 10 * a + digit_val c) 0 s"

subsection \<open>Producer operations\<close>

text \<open>
  The module-level \<open>queue\<close> object is passed in and returned. Log lines are not modelled.
\<close>

definition new_command :: "CommandSpec \<Rightarrow> entropy \<Rightarrow> DesignCommand" where
  "new_command command e =
     CommandSpec.extend command
       \<lparr>id_c = command_id (now_id e) (random_suffix e),
        status = pending,
        createdAt = now_created e\<rparr>"

definition queueCommand ::
  "CommandSpec \<Rightarrow> entropy \<Rightarrow> CommandQueue \<Rightarrow> DesignCommand \<times> CommandQueue" where
  "queueCommand command e q =
     (let cmd = new_command command e
      in (cmd, q\<lparr>commands := commands q @ [cmd]\<rparr>))"

text \<open>\<open>commands.map(cmd => queueCommand(cmd))\<close>, each call with its own clock and draw.\<close>

fun queueCommands ::
  "(CommandSpec \<times> entropy) list \<Rightarrow> CommandQueue \<Rightarrow> DesignCommand list \<times> CommandQueue" where
  "queueCommands [] q = ([], q)"
| "queueCommands ((command, e) # rest) q =
     (let (cmd, q1) = queueCommand command e q;
          (cmds, q2) = queueCommands rest q1
      in (cmd # cmds, q2))"

definition queueBatch ::
  "string \<Rightarrow> (CommandSpec \<times> entropy) list \<Rightarrow> CommandQueue
     \<Rightarrow> DesignCommand list \<times> CommandQueue" where
  "queueBatch fk items q = queueCommands items (q\<lparr>fileKey := Some fk\<rparr>)"

definition getPendingCommands :: "CommandQueue \<Rightarrow> DesignCommand list" where
  "getPendingCommands q = filter (\<lambda>c. status c = pending) (commands q)"


text \<open>
  \<open>completeCommand\<close> mutates the first command whose id matches, in place: the list keeps
  its length and order, and the element at the position of the first match is replaced.
\<close>

definition first_index :: "string \<Rightarrow> DesignCommand list \<Rightarrow> nat" where
  "first_index i cs = length (takeWhile (\<lambda>c. id_c c \<noteq> i) cs)"

definition mark_complete ::
  "json option \<Rightarrow> json option \<Rightarrow> nat \<Rightarrow> DesignCommand \<Rightarrow> DesignCommand" where
  "mark_complete res err now cmd =
     cmd\<lparr>status := (if js_truthy err then failed else completed),
         result := res,
         error := err,
         completedAt := Some now\<rparr>"

definition completeCommand ::
  "string \<Rightarrow> json option \<Rightarrow> json option \<Rightarrow> nat \<Rightarrow> CommandQueue \<Rightarrow> bool \<times> CommandQueue" where
  "completeCommand i res err now q =
     (case find (\<lambda>c. id_c c = i) (commands q) of
        None \<Rightarrow> (False, q)
      | Some cmd \<Rightarrow>
          (True, q\<lparr>commands :=
                    (commands q)[first_index i (commands q) := mark_complete res err now cmd]\<rparr>))"

definition clearCommands :: "CommandQueue \<Rightarrow> CommandQueue" where
  "clearCommands q = q\<lparr>commands := [], fileKey := None\<rparr>"

text \<open>A sequence of producer calls, run in order on the queue.\<close>

datatype enqueue_call =
    Enqueue CommandSpec entropy
  | EnqueueBatch string "(CommandSpec \<times> entropy) list"

fun enqueue_step :: "enqueue_call \<Rightarrow> CommandQueue \<Rightarrow> DesignCommand list \<times> CommandQueue" where
  "enqueue_step (Enqueue command e) q = (let (cmd, q1) = queueCommand command e q in ([cmd], q1))"
| "enqueue_step (EnqueueBatch fk items) q = queueBatch fk items q"

fun enqueue_run :: "enqueue_call list \<Rightarrow> CommandQueue \<Rightarrow> DesignCommand list \<times> CommandQueue" where
  "enqueue_run [] q = ([], q)"
| "enqueue_run (c # cs) q =
     (let (made, q1) = enqueue_step c q;
          (more, q2) = enqueue_run cs q1
      in (made @ more, q2))"

text \<open>What a call enqueues, in order, and what it leaves as the queue's file key.\<close>

fun call_items :: "enqueue_call \<Rightarrow> (CommandSpec \<times> entropy) list" where
  "call_items (Enqueue command e) = [(command, e)]"
| "call_items (EnqueueBatch fk items) = items"

definition call_fileKey :: "enqueue_call \<Rightarrow> string option \<Rightarrow> string option" where
  "call_fileKey c k = (case c of Enqueue command e \<Rightarrow> k | EnqueueBatch fk items \<Rightarrow> Some fk)"

section \<open>The HTTP relay\<close>

text \<open>
  The request listener of \<open>startBridgeServer\<close>. A request is its HTTP method, the path name of
  its parsed URL and its body, read to the end: the queue is touched only in the \<open>end\<close>
  callback, so one request is one transition of the queue. The listener sets the three
  CORS headers before anything else; routes that answer JSON add a content type.
\<close>

record request =
  httpMethod :: string
  pathname :: string
  body :: string

datatype payload =
    NoBody
  | PendingCommands "string option" "DesignCommand list"
  | WholeQueue CommandQueue
  | SuccessFlag bool
  | ErrorText string
  | Health nat nat
  | PluginCode nat

record response =
  statusCode :: nat
  headers :: "(string \<times> string) list"
  payload :: payload

definition cors_headers :: "(string \<times> string) list" where
  "cors_headers =
     [(''Access-Control-Allow-Origin'', ''*''),
      (''Access-Control-Allow-Methods'', ''GET, POST, DELETE, OPTIONS''),
      (''Access-Control-Allow-Headers'', ''Content-Type'')]"

definition respond :: "nat \<Rightarrow> string \<Rightarrow> payload \<Rightarrow> response" where
  "respond c ctype p =
     \<lparr>statusCode = c, headers = cors_headers @ [(''Content-Type'', ctype)], payload = p\<rparr>"

definition respond_json :: "nat \<Rightarrow> payload \<Rightarrow> response" where
  "respond_json c p = respond c ''application/json'' p"

text \<open>
  \<open>url.pathname.match(/^\/commands\/([^/]+)\/complete$/)\<close>: the path is \<open>/commands/\<close>, a
  non-empty run of characters other than \<open>/\<close>, and \<open>/complete\<close>; the run is the command id.
\<close>

definition complete_match :: "string \<Rightarrow> string option" where
  "complete_match path =
     (if take 10 path = ''/commands/'' then
        (let rest = drop 10 path;
             i = takeWhile (\<lambda>c. c \<noteq> CHR ''/'') rest;
             tail = dropWhile (\<lambda>c. c \<noteq> CHR ''/'') rest
         in if i \<noteq> [] \<and> tail = ''/complete'' then Some i else None)
      else None)"

text \<open>
  The body of the \<open>try\<close> up to the call of \<open>completeCommand\<close>:
  \<open>const data = body ? JSON.parse(body) : {}\<close>, then the reads \<open>data.result\<close> and
  \<open>data.error\<close>. \<open>JSON.parse\<close> is the platform's; it is the parameter \<open>parse\<close>, with
  \<open>None\<close> where it throws. \<open>None\<close> here means that an exception reached the \<open>catch\<close>.
\<close>

definition read_report ::
  "(string \<Rightarrow> json option) \<Rightarrow> string \<Rightarrow> (json option \<times> json option) option" where
  "read_report parse b =
     (case (if b = [] then Some (JObj []) else parse b) of
        None \<Rightarrow> None
      | Some data \<Rightarrow>
          (case js_get data ''result'' of
             Inl e \<Rightarrow> None
           | Inr res \<Rightarrow>
               (case js_get data ''error'' of
                  Inl e \<Rightarrow> None
                | Inr err \<Rightarrow> Some (res, err))))"

definition handle_request ::
  "(string \<Rightarrow> json option) \<Rightarrow> nat \<Rightarrow> nat \<Rightarrow> request \<Rightarrow> CommandQueue
     \<Rightarrow> response \<times> CommandQueue" where
  "handle_request parse port now req q =
     (if httpMethod req = ''OPTIONS'' then
        (\<lparr>statusCode = 200, headers = cors_headers, payload = NoBody\<rparr>, q)
      else if httpMethod req = ''GET'' \<and> pathname req = ''/commands'' then
        (respond_json 200 (PendingCommands (fileKey q) (getPendingCommands q)), q)
      else if httpMethod req = ''GET'' \<and> pathname req = ''/commands/all'' then
        (respond_json 200 (WholeQueue q), q)
      else
        (case (if httpMethod req = ''POST'' then complete_match (pathname req) else None) of
           Some commandId \<Rightarrow>
             (case read_report parse (body req) of
                None \<Rightarrow> (respond_json 400 (ErrorText ''Invalid JSON''), q)
              | Some (res, err) \<Rightarrow>
                  (let (success, q1) = completeCommand commandId res err now q
                   in (respond_json (if success then 200 else 404) (SuccessFlag success), q1)))
         | None \<Rightarrow>
             (if httpMethod req = ''DELETE'' \<and> pathname req = ''/commands'' then
                (respond_json 200 (SuccessFlag True), clearCommands q)
              else if httpMethod req = ''GET'' \<and> pathname req = ''/health'' then
                (respond_json 200 (Health (length (getPendingCommands q)) (length (commands q))), q)
              else if httpMethod req = ''GET'' \<and> pathname req = ''/plugin'' then
                (respond 200 ''application/javascript'' (PluginCode port), q)
              else
                (respond_json 404 (ErrorText ''Not found''), q))))"




text \<open>What identifies a stored command: the fields no operation rewrites.\<close>

definition identity_of :: "DesignCommand \<Rightarrow> string \<times> string option \<times> json option \<times> nat" where
  "identity_of c = (id_c c, type c, params c, createdAt c)"

section \<open>The executor (plugin script)\<close>

text \<open>
  The executor is the plugin's packaged script, with the set \<open>executingCommands\<close>, its
  eviction timers and the reachability probe. The text that \<open>generatePluginCode\<close> builds
  for \<open>GET /plugin\<close> is not a JavaScript program: its \<open>set_property\<close> handler holds the
  TypeScript cast \<open>(node as any)[key] = value\<close>, so loading it stops with a syntax error
  before anything runs, and it has no behaviour to describe. Its relay side, the route that
  serves it, is part of the relay above.
\<close>

subsection \<open>The handler table\<close>

text \<open>
  A handler returns a value or throws an error with a message. \<open>handlers\<close> is an object
  literal with thirteen entries, so a look-up \<open>handlers[key]\<close> finds these and, through the
  prototype chain, the properties of \<open>Object.prototype\<close>; every one of those is truthy.
  A key found in neither yields \<open>undefined\<close>, which is \<open>None\<close>.
\<close>

datatype outcome = Returned "json option" | Threw string

definition handler_names :: "string list" where
  "handler_names =
     [''create_page'', ''rename_page'', ''delete_page'',
      ''move_node'', ''rename_node'', ''delete_node'',
      ''create_frame'', ''create_component'', ''create_style'',
      ''group_nodes'', ''ungroup_node'',
      ''set_property'', ''batch'']"

definition object_prototype_names :: "string list" where
  "object_prototype_names =
     [''constructor'', ''__defineGetter__'', ''__defineSetter__'', ''hasOwnProperty'',
      ''__lookupGetter__'', ''__lookupSetter__'', ''isPrototypeOf'',
      ''propertyIsEnumerable'', ''toString'', ''valueOf'', ''__proto__'',
      ''toLocaleString'']"

datatype handler = Own string | Inherited string

definition lookup_handler :: "string \<Rightarrow> handler option" where
  "lookup_handler k =
     (if k \<in> set handler_names then Some (Own k)
      else if k \<in> set object_prototype_names then Some (Inherited k)
      else None)"

text \<open>
  The TypeErrors that the engine itself raises in \<open>batch\<close>: reading a property of
  \<open>undefined\<close> or \<open>null\<close>, iterating a value that is not iterable, and converting to a
  property key an object that has no primitive value.
\<close>

datatype fault =
    ReadOfNullish "json option" string
  | NotIterable "json option"
  | NotPrimitive json

text \<open>
  What the script reaches outside itself is a parameter: \<open>figma\<close> is the body of each of
  the twelve document handlers, by name, acting on the document (the handler's effect on
  the document is taken as one transition, made when it is called); \<open>inherited\<close> is the
  call of a property of \<open>Object.prototype\<close> other than \<open>constructor\<close>, as a method of
  \<open>handlers\<close> (\<open>True\<close>) or as a plain function (\<open>False\<close>); \<open>number_text\<close> is the engine's
  rendering of a number as a string; \<open>message_of\<close> is the sentence the engine puts in the
  \<open>message\<close> of each of its TypeErrors.
\<close>

record 'doc platform =
  figma :: "string \<Rightarrow> json option \<Rightarrow> 'doc \<Rightarrow> outcome \<times> 'doc"
  inherited :: "bool \<Rightarrow> string \<Rightarrow> json option \<Rightarrow> outcome"
  number_text :: "real \<Rightarrow> string"
  message_of :: "fault \<Rightarrow> string"

text \<open>
  \<open>handlers[cmd.type]\<close> converts \<open>cmd.type\<close> to a property key. A string is its own key and
  the other primitives have their spelling. An array is joined: its elements are
  converted in turn, \<open>null\<close> giving the empty string, with commas between them. A value
  that came as JSON has no function among its properties, so an object converts through
  \<open>Object.prototype.toString\<close>, to \<open>[object Object]\<close>, unless it has a property
  \<open>toString\<close> of its own: then that property is not callable, \<open>valueOf\<close> (its own, not
  callable, or the inherited one, which returns the object) yields no primitive, and the
  conversion throws. \<open>None\<close> is that throw.
\<close>

fun join_texts :: "string option list \<Rightarrow> string option" where
  "join_texts [] = Some []"
| "join_texts [x] = x"
| "join_texts (x # y # ys) =
     (case (x, join_texts (y # ys)) of
        (Some a, Some b) \<Rightarrow> Some (a @ '','' @ b)
      | other \<Rightarrow> None)"

fun to_text :: "(real \<Rightarrow> string) \<Rightarrow> json \<Rightarrow> string option" where
  "to_text num JNull = Some ''null''"
| "to_text num (JBool b) = Some (if b then ''true'' else ''false'')"
| "to_text num (JNum x) = Some (num x)"
| "to_text num (JStr s) = Some s"
| "to_text num (JArr xs) =
     join_texts (map (\<lambda>x. if x = JNull then Some [] else to_text num x) xs)"
| "to_text num (JObj kvs) =
     (if map_of kvs ''toString'' = None then Some ''[object Object]'' else None)"

definition property_key :: "'doc platform \<Rightarrow> json option \<Rightarrow> fault + string" where
  "property_key pf t =
     (case t of
        None \<Rightarrow> Inr ''undefined''
      | Some v \<Rightarrow>
          (case to_text (number_text pf) v of
             None \<Rightarrow> Inl (NotPrimitive v)
           | Some k \<Rightarrow> Inr k))"

text \<open>
  \<open>handlers['constructor']\<close> is \<open>Object\<close>. \<open>Object(v)\<close> never throws: it makes an empty
  object from \<open>undefined\<close> and \<open>null\<close>, returns an object as it is and wraps a primitive,
  which travels as JSON like the primitive itself.
\<close>

definition js_Object :: "json option \<Rightarrow> json" where
  "js_Object p = (case p of None \<Rightarrow> JObj [] | Some JNull \<Rightarrow> JObj [] | Some v \<Rightarrow> v)"

text \<open>
  The entries that \<open>batch\<close> pushes, as they travel: a property whose value is
  \<open>undefined\<close> is left out.
\<close>

definition field :: "string \<Rightarrow> json option \<Rightarrow> (string \<times> json) list" where
  "field k v = (case v of None \<Rightarrow> [] | Some x \<Rightarrow> [(k, x)])"

definition success_entry :: "json option \<Rightarrow> json option \<Rightarrow> json" where
  "success_entry t r = JObj (field ''type'' t @ [(''success'', JBool True)] @ field ''result'' r)"

definition failure_entry :: "json option \<Rightarrow> string \<Rightarrow> json" where
  "failure_entry t msg = JObj (field ''type'' t @ [(''success'', JBool False), (''error'', JStr msg)])"

text \<open>How deep a value nests; the recursion of \<open>batch\<close> descends along it.\<close>

fun depth :: "json \<Rightarrow> nat" where
  "depth (JArr xs) = Suc (foldr (\<lambda>x m. max (depth x) m) xs 0)"
| "depth (JObj kvs) = Suc (foldr (\<lambda>kv m. max (depth (snd kv)) m) kvs 0)"
| "depth v = 0"

definition odepth :: "json option \<Rightarrow> nat" where
  "odepth p = (case p of None \<Rightarrow> 0 | Some v \<Rightarrow> Suc (depth v))"

definition ldepth :: "json list \<Rightarrow> nat" where
  "ldepth items = foldr (\<lambda>x m. max (Suc (depth x)) m) items 0"

text \<open>
  \<open>for (const cmd of x)\<close>: an array yields its elements, a string its characters, and any
  other value that got past \<open>params.commands || []\<close> is not iterable.
\<close>

fun iterate :: "json option \<Rightarrow> fault + json list" where
  "iterate (Some (JArr items)) = Inr items"
| "iterate (Some (JStr s)) = Inr (map (\<lambda>ch. JStr [ch]) s)"
| "iterate c = Inl (NotIterable c)"

text \<open>
  \<open>call_handler\<close> calls what a look-up found. \<open>batch\<close> is the handler of that name:
  reading \<open>params.commands\<close> throws when \<open>params\<close> is \<open>undefined\<close> or \<open>null\<close>; the loop
  evaluates \<open>handlers[cmd.type]\<close> outside the inner \<open>try\<close>, so a \<open>null\<close> element and a
  type without a property key throw out of the handler; a sub-command whose type finds no
  handler is passed over; the others are called inside the \<open>try\<close>, and what they return
  or throw becomes an entry of the results. What is thrown carries the engine's sentence.
\<close>

function (sequential)
    call_handler :: "'doc platform \<Rightarrow> bool \<Rightarrow> handler \<Rightarrow> json option \<Rightarrow> 'doc \<Rightarrow> outcome \<times> 'doc"
and batch :: "'doc platform \<Rightarrow> json option \<Rightarrow> 'doc \<Rightarrow> outcome \<times> 'doc"
and batch_loop :: "'doc platform \<Rightarrow> json list \<Rightarrow> json list \<Rightarrow> 'doc \<Rightarrow> outcome \<times> 'doc"
where
  "call_handler pf as_method (Own n) p doc =
     (if n = ''batch'' then batch pf p doc else figma pf n p doc)"
| "call_handler pf as_method (Inherited n) p doc =
     (if n = ''constructor'' then (Returned (Some (js_Object p)), doc)
      else (inherited pf as_method n p, doc))"
| "batch pf None doc = (Threw (message_of pf (ReadOfNullish None ''commands'')), doc)"
| "batch pf (Some v) doc =
     (case js_get v ''commands'' of
        Inl e \<Rightarrow> (Threw (message_of pf (ReadOfNullish (Some v) ''commands'')), doc)
      | Inr c \<Rightarrow>
          (case (if js_truthy c then iterate c else Inr []) of
             Inl f \<Rightarrow> (Threw (message_of pf f), doc)
           | Inr items \<Rightarrow> batch_loop pf items [] doc))"
| "batch_loop pf [] results doc =
     (Returned (Some (JObj [(''batchResults'', JArr results)])), doc)"
| "batch_loop pf (cmd # rest) results doc =
     (case js_get cmd ''type'' of
        Inl e \<Rightarrow> (Threw (message_of pf (ReadOfNullish (Some cmd) ''type'')), doc)
      | Inr t \<Rightarrow>
          (case property_key pf t of
             Inl f \<Rightarrow> (Threw (message_of pf f), doc)
           | Inr k \<Rightarrow>
               (case lookup_handler k of
                  None \<Rightarrow> batch_loop pf rest results doc
                | Some h \<Rightarrow>
                    (case js_get cmd ''params'' of
                       Inl e \<Rightarrow>
                         batch_loop pf rest
                           (results @ [failure_entry t (message_of pf (ReadOfNullish (Some cmd) ''params''))])
                           doc
                     | Inr p \<Rightarrow>
                         (case call_handler pf True h p doc of
                            (Returned r, doc1) \<Rightarrow>
                              batch_loop pf rest (results @ [success_entry t r]) doc1
                          | (Threw msg, doc1) \<Rightarrow>
                              batch_loop pf rest (results @ [failure_entry t msg]) doc1)))))"
  by pat_completeness auto


termination
proof (relation "inv_image (less_than <*lex*> less_than <*lex*> less_than)
    (\<lambda>x. case x of
            Inl (pf, m, h, p, doc) \<Rightarrow> (odepth p, 2::nat, 0::nat)
          | Inr (Inl (pf, p, doc)) \<Rightarrow> (odepth p, 1, 0)
          | Inr (Inr (pf, items, results, doc)) \<Rightarrow> (ldepth items, 0, length items))")
  let ?R = "inv_image (less_than <*lex*> less_than <*lex*> less_than)
    (\<lambda>x. case x of
            Inl (pf :: 'a platform, m :: bool, h :: handler, p, doc :: 'a) \<Rightarrow> (odepth p, 2::nat, 0::nat)
          | Inr (Inl (pf :: 'a platform, p, doc :: 'a)) \<Rightarrow> (odepth p, 1, 0)
          | Inr (Inr (pf :: 'a platform, items, results :: json list, doc :: 'a)) \<Rightarrow> (ldepth items, 0, length items))"
  have inside: "depth x < depth (JObj kvs)" if "map_of kvs k = Some x" for kvs :: "(string \<times> json) list" and k x
  proof -
    from that have "depth x \<le> foldr (\<lambda>kv m. max (depth (snd kv)) m) kvs 0"
      by (induction kvs) (auto split: if_splits simp: max_def)
    then show ?thesis by simp
  qed
  have got: "depth x < depth v" if "js_get v k = Inr (Some x)" for v k x
    using that by (cases v) (auto dest: inside)
  have arr: "ldepth xs \<le> depth (JArr xs)" for xs
  proof -
    have "ldepth xs \<le> Suc (foldr (\<lambda>x m. max (depth x) m) xs 0)"
      unfolding ldepth_def by (induction xs) (auto simp: max_def)
    then show ?thesis by simp
  qed
  have chars: "ldepth (map (\<lambda>ch. JStr [ch]) s) \<le> Suc 0" for s :: string
    unfolding ldepth_def by (induction s) (auto simp: max_def)
  have iter: "ldepth items \<le> Suc (depth x)" if "iterate (Some x) = Inr items" for x items
    using that arr [of items] chars by (cases x) (auto simp: le_Suc_eq)
  have tail: "ldepth rest \<le> ldepth (c # rest)" for c rest
    by (simp add: ldepth_def)
  have headd: "Suc (depth c) \<le> ldepth (c # rest)" for c rest
    by (simp add: ldepth_def)
  have shrink: "(Inr (Inr (pf, rest, r1, d1)), Inr (Inr (pf, cmd # rest, r2, d2))) \<in> ?R"
    for pf :: "'a platform" and rest cmd r1 r2 and d1 d2 :: 'a
    using tail [of rest cmd] by (auto simp: le_less)
  show "wf ?R"
    by (intro wf_inv_image wf_lex_prod wf_less_than)
  show "(Inr (Inl (pf, p, doc)), Inl (pf, as_method, Own n, p, doc)) \<in> ?R"
    if "n = ''batch''" for pf :: "'a platform" and as_method n p and doc :: 'a
    by simp
  show "(Inr (Inr (pf, ba, [], doc)), Inr (Inl (pf, Some v, doc))) \<in> ?R"
    if "js_get v ''commands'' = Inr b" and "(if js_truthy b then iterate b else Inr []) = Inr ba"
    for pf :: "'a platform" and v and doc :: 'a and b ba
  proof (cases "js_truthy b")
    case False
    with that(2) show ?thesis by (simp add: odepth_def ldepth_def)
  next
    case True
    then obtain x where b: "b = Some x" by (cases b) auto
    have "depth x < depth v" using that(1) b got by blast
    moreover have "ldepth ba \<le> Suc (depth x)" using that(2) True b iter by simp
    ultimately show ?thesis by (simp add: odepth_def)
  qed
  show "(Inr (Inr (pf, rest, results, doc)), Inr (Inr (pf, cmd # rest, results, doc))) \<in> ?R"
    for pf :: "'a platform" and cmd rest results and doc :: 'a
    by (rule shrink)
  show "(Inr (Inr (pf, rest, results @ [failure_entry b a], doc)), Inr (Inr (pf, cmd # rest, results, doc))) \<in> ?R"
    for pf :: "'a platform" and cmd rest results and doc :: 'a and b a
    by (rule shrink)
  show "(Inl (pf, True, x2, ba, doc), Inr (Inr (pf, cmd # rest, results, doc))) \<in> ?R"
    if "js_get cmd ''params'' = Inr ba"
    for pf :: "'a platform" and cmd rest results and doc :: 'a and x2 ba
  proof (cases ba)
    case None
    then show ?thesis using headd [of cmd rest] by (simp add: odepth_def)
  next
    case (Some x)
    then have "depth x < depth cmd" using that got by blast
    then show ?thesis using headd [of cmd rest] Some by (simp add: odepth_def)
  qed
  show "(Inr (Inr (pf, rest, results @ [success_entry b x1], y)), Inr (Inr (pf, cmd # rest, results, doc))) \<in> ?R"
    for pf :: "'a platform" and cmd rest results and doc y :: 'a and b x1
    by (rule shrink)
  show "(Inr (Inr (pf, rest, results @ [failure_entry b x2a], y)), Inr (Inr (pf, cmd # rest, results, doc))) \<in> ?R"
    for pf :: "'a platform" and cmd rest results and doc y :: 'a and b x2a
    by (rule shrink)
qed

text \<open>
  Reading a sub-command: its type and its parameters (\<open>undefined\<close> where the element has
  none), and the handler that its type finds, if any. An element is readable when the
  loop gets past \<open>handlers[cmd.type]\<close> without a throw: it is not \<open>null\<close> and its type has
  a property key.
\<close>

definition item_type :: "json \<Rightarrow> json option" where
  "item_type item = (case js_get item ''type'' of Inl e \<Rightarrow> None | Inr t \<Rightarrow> t)"

definition item_params :: "json \<Rightarrow> json option" where
  "item_params item = (case js_get item ''params'' of Inl e \<Rightarrow> None | Inr p \<Rightarrow> p)"

definition handler_of :: "'doc platform \<Rightarrow> json \<Rightarrow> handler option" where
  "handler_of pf item =
     (case property_key pf (item_type item) of Inl f \<Rightarrow> None | Inr k \<Rightarrow> lookup_handler k)"

definition handled :: "'doc platform \<Rightarrow> json \<Rightarrow> bool" where
  "handled pf item = (handler_of pf item \<noteq> None)"

definition readable :: "'doc platform \<Rightarrow> json \<Rightarrow> bool" where
  "readable pf item =
     (item \<noteq> JNull
      \<and> (case property_key pf (item_type item) of Inl f \<Rightarrow> False | Inr k \<Rightarrow> True))"

text \<open>
  The policy of \<open>batch\<close> in the words of its description: the sub-commands whose type
  finds a handler are called one after the other, each on the document as the one before
  left it and whatever the one before did; \<open>attempts\<close> lists them with the outcome of their
  call and gives the document at the end. \<open>entry_of\<close> is the entry that stands for one of
  them in the results, and \<open>batch_result\<close> the value that aggregates the entries. This
  describes the loop on readable elements; on an element that is not readable the loop
  throws, and the handler with it.
\<close>

fun attempts :: "'doc platform \<Rightarrow> json list \<Rightarrow> 'doc \<Rightarrow> (json \<times> outcome) list \<times> 'doc" where
  "attempts pf [] doc = ([], doc)"
| "attempts pf (cmd # rest) doc =
     (case handler_of pf cmd of
        None \<Rightarrow> attempts pf rest doc
      | Some h \<Rightarrow>
          (case call_handler pf True h (item_params cmd) doc of
             (out, doc1) \<Rightarrow>
               (case attempts pf rest doc1 of
                  (others, doc2) \<Rightarrow> ((cmd, out) # others, doc2))))"

fun entry_of :: "json \<times> outcome \<Rightarrow> json" where
  "entry_of (cmd, Returned r) = success_entry (item_type cmd) r"
| "entry_of (cmd, Threw msg) = failure_entry (item_type cmd) msg"

definition batch_result :: "'doc platform \<Rightarrow> json list \<Rightarrow> 'doc \<Rightarrow> json" where
  "batch_result pf items doc =
     JObj [(''batchResults'', JArr (map entry_of (fst (attempts pf items doc))))]"

subsection \<open>Polling\<close>

text \<open>
  The script runs on an event loop: code runs to the next \<open>await\<close>, then other callbacks
  may run. The state below is what the callbacks share. A \<open>task\<close> is one suspended
  activation of \<open>pollCommands\<close> with what it awaits: the poll response, the handler's
  promise (with the value it settles to), or the completion report (with the message of
  the error caught, if it is sent from the \<open>catch\<close>). \<open>timers\<close> are the pending
  \<open>setTimeout\<close> callbacks with the time they are due. \<open>trace\<close> records, with the clock,
  what the script did that can be seen from outside.
\<close>

datatype report = ReportResult "json option" | ReportError string


datatype effect =
    GetCommands
  | Executing "string option" string
  | PostComplete string report
  | Notify bool string
  | UiMessage string

datatype action = Evict string | Poll

datatype task =
    AwaitingCommands
  | AwaitingHandler DesignCommand "DesignCommand list" outcome
  | AwaitingReport DesignCommand "DesignCommand list" "string option"
  | Finished

record 'doc executor =
  isRunning :: bool
  executingCommands :: "string set"
  timers :: "(nat \<times> action) list"
  clock :: nat
  tasks :: "task list"
  document :: 'doc
  trace :: "(nat \<times> effect) list"

datatype message = Start bool | Stop

datatype event =
    Message message
  | CommandsSettled nat "DesignCommand list option"
  | HandlerSettled nat
  | ReportSettled nat "string option"
  | TimerFired nat
  | Elapse nat

definition initial :: "'doc \<Rightarrow> 'doc executor" where
  "initial doc =
     \<lparr>isRunning = False, executingCommands = {}, timers = [], clock = 0, tasks = [],
      document = doc, trace = []\<rparr>"

definition POLL_INTERVAL :: nat where
  "POLL_INTERVAL = 1000"

definition emit :: "effect \<Rightarrow> 'doc executor \<Rightarrow> 'doc executor" where
  "emit e s = s\<lparr>trace := trace s @ [(clock s, e)]\<rparr>"

definition setTimeout :: "action \<Rightarrow> nat \<Rightarrow> 'doc executor \<Rightarrow> 'doc executor" where
  "setTimeout a delay s = s\<lparr>timers := timers s @ [(clock s + delay, a)]\<rparr>"

definition type_text :: "DesignCommand \<Rightarrow> string" where
  "type_text cmd = (case type cmd of None \<Rightarrow> ''undefined'' | Some s \<Rightarrow> s)"

definition pollCommands :: "'doc executor \<Rightarrow> 'doc executor" where
  "pollCommands s =
     (if \<not> isRunning s then s
      else (emit GetCommands s)\<lparr>tasks := tasks s @ [AwaitingCommands]\<rparr>)"

definition finish_iteration :: "DesignCommand \<Rightarrow> 'doc executor \<Rightarrow> 'doc executor" where
  "finish_iteration cmd s = setTimeout (Evict (id_c cmd)) 5000 s"

fun run_loop ::
  "'doc platform \<Rightarrow> DesignCommand list \<Rightarrow> 'doc executor \<Rightarrow> 'doc executor \<times> task" where
  "run_loop pf [] s = (setTimeout Poll POLL_INTERVAL s, Finished)"
| "run_loop pf (cmd # rest) s =
     (if id_c cmd \<in> executingCommands s then run_loop pf rest s
      else
        (let s1 = emit (Executing (type cmd) (id_c cmd))
                    (s\<lparr>executingCommands := insert (id_c cmd) (executingCommands s)\<rparr>)
         in case lookup_handler (type_text cmd) of
              None \<Rightarrow>
                (emit (PostComplete (id_c cmd)
                         (ReportError (''Unknown command type: '' @ type_text cmd))) s1,
                 AwaitingReport cmd rest (Some (''Unknown command type: '' @ type_text cmd)))
            | Some h \<Rightarrow>
                (case call_handler pf False h (params cmd) (document s1) of
                   (out, doc1) \<Rightarrow> (s1\<lparr>document := doc1\<rparr>, AwaitingHandler cmd rest out))))"

definition resume :: "nat \<Rightarrow> 'doc executor \<times> task \<Rightarrow> 'doc executor" where
  "resume k st = (fst st)\<lparr>tasks := (tasks (fst st))[k := snd st]\<rparr>"

definition task_at :: "'doc executor \<Rightarrow> nat \<Rightarrow> task" where
  "task_at s k = (if k < length (tasks s) then tasks s ! k else Finished)"

fun receive :: "message \<Rightarrow> 'doc executor \<Rightarrow> 'doc executor" where
  "receive (Start ok) s =
     (if ok then
        emit (UiMessage ''connection_success'')
          (emit (Notify False ''Connected to MCP Bridge'')
            (pollCommands (s\<lparr>isRunning := True, executingCommands := {}\<rparr>)))
      else
        emit (UiMessage ''connection_failed'')
          (emit (Notify True ''Connection refused'') s))"
| "receive Stop s =
     emit (UiMessage ''disconnected'')
       (emit (Notify False ''Disconnected from MCP Bridge'')
         (s\<lparr>isRunning := False, executingCommands := {}\<rparr>))"

fun fire :: "action \<Rightarrow> 'doc executor \<Rightarrow> 'doc executor" where
  "fire (Evict i) s = s\<lparr>executingCommands := executingCommands s - {i}\<rparr>"
| "fire Poll s = pollCommands s"

fun step :: "'doc platform \<Rightarrow> event \<Rightarrow> 'doc executor \<Rightarrow> 'doc executor" where
  "step pf (Message m) s = receive m s"
| "step pf (CommandsSettled k r) s =
     (case task_at s k of
        AwaitingCommands \<Rightarrow>
          (case r of
             None \<Rightarrow> resume k (setTimeout Poll POLL_INTERVAL s, Finished)
           | Some cmds \<Rightarrow> resume k (run_loop pf cmds s))
      | other \<Rightarrow> s)"
| "step pf (HandlerSettled k) s =
     (case task_at s k of
        AwaitingHandler cmd rest out \<Rightarrow>
          (case out of
             Returned r \<Rightarrow>
               resume k (emit (PostComplete (id_c cmd) (ReportResult r)) s,
                         AwaitingReport cmd rest None)
           | Threw msg \<Rightarrow>
               resume k (emit (PostComplete (id_c cmd) (ReportError msg)) s,
                         AwaitingReport cmd rest (Some msg)))
      | other \<Rightarrow> s)"
| "step pf (ReportSettled k r) s =
     (case task_at s k of
        AwaitingReport cmd rest caught \<Rightarrow>
          (case (r, caught) of
             (None, None) \<Rightarrow>
               resume k (run_loop pf rest
                 (finish_iteration cmd (emit (Notify False (type_text cmd)) s)))
           | (None, Some msg) \<Rightarrow>
               resume k (run_loop pf rest
                 (finish_iteration cmd (emit (Notify True (type_text cmd @ '': '' @ msg)) s)))
           | (Some rejected, None) \<Rightarrow>
               resume k (emit (PostComplete (id_c cmd) (ReportError rejected)) s,
                         AwaitingReport cmd rest (Some rejected))
           | (Some rejected, Some msg) \<Rightarrow>
               resume k (setTimeout Poll POLL_INTERVAL (finish_iteration cmd s), Finished))
      | other \<Rightarrow> s)"
| "step pf (TimerFired j) s =
     (if j < length (timers s) \<and> fst (timers s ! j) \<le> clock s
      then fire (snd (timers s ! j)) (s\<lparr>timers := take j (timers s) @ drop (Suc j) (timers s)\<rparr>)
      else s)"
| "step pf (Elapse d) s = s\<lparr>clock := clock s + d\<rparr>"

fun run :: "'doc platform \<Rightarrow> event list \<Rightarrow> 'doc executor \<Rightarrow> 'doc executor" where
  "run pf [] s = s"
| "run pf (e # es) s = run pf es (step pf e s)"

fun is_dispatch :: "string \<Rightarrow> nat \<times> effect \<Rightarrow> bool" where
  "is_dispatch i (t, Executing ty j) = (j = i)"
| "is_dispatch i other = False"

definition dispatches :: "string \<Rightarrow> 'doc executor \<Rightarrow> nat" where
  "dispatches i s = length (filter (is_dispatch i) (trace s))"

subsection \<open>What a run shows\<close>

text \<open>
  A report for an id was posted at least 5000 ms before a given time; every entry of the
  trace is stamped no later than the clock; every task awaiting a report and every
  eviction timer has its posted report.
\<close>

fun is_report :: "string \<Rightarrow> effect \<Rightarrow> bool" where
  "is_report i (PostComplete j r) = (j = i)"
| "is_report i other = False"

definition reported_before :: "string \<Rightarrow> nat \<Rightarrow> 'doc executor \<Rightarrow> bool" where
  "reported_before i limit s = list_ex (\<lambda>(t, e). is_report i e \<and> t + 5000 \<le> limit) (trace s)"

definition stamped :: "'doc executor \<Rightarrow> bool" where
  "stamped s = list_all (\<lambda>(t, e). t \<le> clock s) (trace s)"

fun task_reported :: "'doc executor \<Rightarrow> task \<Rightarrow> bool" where
  "task_reported s (AwaitingReport cmd rest caught) = reported_before (id_c cmd) (clock s + 5000) s"
| "task_reported s other = True"

fun timer_reported :: "'doc executor \<Rightarrow> nat \<times> action \<Rightarrow> bool" where
  "timer_reported s (due, Evict i) = reported_before i due s"
| "timer_reported s (due, Poll) = True"

definition consistent :: "'doc executor \<Rightarrow> bool" where
  "consistent s \<longleftrightarrow>
     stamped s \<and> list_all (task_reported s) (tasks s) \<and> list_all (timer_reported s) (timers s)"

section \<open>Sample data\<close>

text \<open>A frame-creation command, one clock reading and one random draw, and queues built from them.\<close>

definition sample_spec :: CommandSpec where
  "sample_spec = \<lparr>type = Some ''create_frame'', params = Some (JObj [(''name'', JStr ''Hero'')]),
                   result = None, error = None, completedAt = None\<rparr>"

definition sample_entropy :: entropy where
  "sample_entropy = \<lparr>now_id = 1700, random_suffix = ''k3x9q'', now_created = 1700\<rparr>"

definition sample_done :: CommandQueue where
  "sample_done = snd (completeCommand ''cmd_1700_k3x9q'' (Some (JStr ''first'')) None 1800
                       (snd (queueCommand sample_spec sample_entropy empty_queue)))"


text \<open>
  A stand-in for \<open>JSON.parse\<close> that agrees with it on the bodies the examples send:
  \<open>null\<close> parses to null, \<open>{}\<close> to the empty object, and an opening brace alone is a
  syntax error.
\<close>

definition parse_sample :: "string \<Rightarrow> json option" where
  "parse_sample b =
     (if b = ''null'' then Some JNull
      else if b = ''{}'' then Some (JObj [])
      else None)"

definition complete_request :: "string \<Rightarrow> string \<Rightarrow> request" where
  "complete_request i b = \<lparr>httpMethod = ''POST'', pathname = ''/commands/'' @ i @ ''/complete'', body = b\<rparr>"

definition typeless_spec :: CommandSpec where
  "typeless_spec = \<lparr>type = None, params = Some (JObj [(''name'', JStr ''Hero'')]),
                     result = None, error = None, completedAt = None\<rparr>"

text \<open>
  A second clock reading and draw; a queue of two commands with different ids; a queue of
  two commands made from the same reading and the same draw; and three named page
  commands for a batch, enqueued within one millisecond.
\<close>

definition other_entropy :: entropy where
  "other_entropy = \<lparr>now_id = 1701, random_suffix = ''a7b2c'', now_created = 1701\<rparr>"

definition sample_two :: CommandQueue where
  "sample_two =
     snd (enqueue_run [Enqueue typeless_spec other_entropy, Enqueue sample_spec sample_entropy]
            empty_queue)"

definition sample_twins :: CommandQueue where
  "sample_twins =
     snd (enqueue_run [Enqueue sample_spec sample_entropy, Enqueue typeless_spec sample_entropy]
            empty_queue)"

definition batch_entropy :: "string \<Rightarrow> entropy" where
  "batch_entropy r = \<lparr>now_id = 1702, random_suffix = r, now_created = 1702\<rparr>"

definition named_spec :: "string \<Rightarrow> CommandSpec" where
  "named_spec n = \<lparr>type = Some ''create_page'', params = Some (JObj [(''name'', JStr n)]),
                    result = None, error = None, completedAt = None\<rparr>"

text \<open>
  A platform on which deleting a node fails and every other document handler succeeds; no
  example has a number for a type, and the sentences of the TypeErrors are an engine's
  own. Then commands for the executor: the sample command as polled, a command of a given
  type, and a sub-command of a batch.
\<close>

definition sample_platform :: "unit platform" where
  "sample_platform =
     \<lparr>figma = (\<lambda>n p d. if n = ''delete_node'' then (Threw ''Node not found'', d)
                        else (Returned (Some (JObj [(''done'', JStr n)])), d)),
      inherited = (\<lambda>m n p. Threw ''not a function''),
      number_text = (\<lambda>x. ''0''),
      message_of = (\<lambda>f. case f of
                      ReadOfNullish v k \<Rightarrow> ''Cannot read properties of null''
                    | NotIterable v \<Rightarrow> ''object is not iterable''
                    | NotPrimitive v \<Rightarrow> ''Cannot convert object to primitive value'')\<rparr>"

definition sample_command :: DesignCommand where
  "sample_command = new_command sample_spec sample_entropy"

definition typed_command :: "string \<Rightarrow> json option \<Rightarrow> DesignCommand" where
  "typed_command t p =
     \<lparr>type = Some t, params = p, result = None, error = None, completedAt = None,
      id_c = ''cmd_1700_k3x9q'', status = pending, createdAt = 1700\<rparr>"

definition sub_command :: "string \<Rightarrow> json" where
  "sub_command t = JObj [(''type'', JStr t), (''params'', JObj [])]"

text \<open>
  The packaged script connected and dispatching the sample command; the same run after the
  handler settled, the report was accepted and five seconds passed; and the parameters of
  a batch of sub-commands of the given types.
\<close>

definition sample_inflight :: "unit executor" where
  "sample_inflight =
     run sample_platform
       [Message (Start True), CommandsSettled 0 (Some [sample_command])] (initial ())"

definition sample_reported :: "unit executor" where
  "sample_reported =
     run sample_platform
       [Message (Start True), CommandsSettled 0 (Some [sample_command]),
        HandlerSettled 0, ReportSettled 0 None, Elapse 5000] (initial ())"

definition batch_params :: "string list \<Rightarrow> json" where
  "batch_params ts = JObj [(''commands'', JArr (map sub_command ts))]"




definition sample_connected :: "unit executor" where
  "sample_connected = run sample_platform [Message (Start True)] (initial ())"



section \<open>Properties of the queue\<close>

subsection \<open>Enqueueing\<close>

lemma queueCommand_eq:
  "queueCommand command e q =
     (new_command command e, q\<lparr>commands := commands q @ [new_command command e]\<rparr>)"
  by (simp add: queueCommand_def Let_def)

lemma new_command_fields:
  "id_c (new_command command e) = command_id (now_id e) (random_suffix e)"
  "status (new_command command e) = pending"
  "createdAt (new_command command e) = now_created e"
  "CommandSpec.truncate (new_command command e) = command"
  by (simp_all add: new_command_def CommandSpec.extend_def CommandSpec.truncate_def)

lemma queueCommands_eq:
  "queueCommands items q =
     (map (\<lambda>(c, e). new_command c e) items,
      q\<lparr>commands := commands q @ map (\<lambda>(c, e). new_command c e) items\<rparr>)"
proof (induction items arbitrary: q)
  case Nil
  show ?case by simp
next
  case (Cons a items)
  obtain command e where a: "a = (command, e)" by (cases a)
  show ?case
    by (simp add: a Cons.IH queueCommand_eq)
qed

lemma string_of_nat_digits: "set (string_of_nat n) \<subseteq> set ''0123456789''"
proof (induction n rule: string_of_nat.induct)
  case (1 n)
  have d: "\<And>k. k < 10 \<Longrightarrow> digit_char k \<in> set ''0123456789''"
    unfolding digit_char_def by (rule nth_mem) simp
  show ?case
  proof (cases "n < 10")
    case True
    then show ?thesis using d [of n] by (subst string_of_nat.simps) simp
  next
    case False
    have "n mod 10 < 10" by simp
    then show ?thesis using False 1 d [of "n mod 10"] by (subst string_of_nat.simps) simp
  qed
qed

lemma digit_val_char: "k < 10 \<Longrightarrow> digit_val (digit_char k) = k"
proof -
  assume "k < 10"
  then have "k \<in> {0,1,2,3,4,5,6,7,8,9}" by auto
  then show ?thesis by (auto simp: digit_val_def digit_char_def)
qed

lemma nat_of_string_of_nat: "nat_of_string (string_of_nat n) = n"
proof (induction n rule: string_of_nat.induct)
  case (1 n)
  show ?case
  proof (cases "n < 10")
    case True
    then show ?thesis
      by (subst string_of_nat.simps) (simp add: nat_of_string_def digit_val_char)
  next
    case False
    have "n mod 10 < 10" by simp
    then have "digit_val (digit_char (n mod 10)) = n mod 10" by (rule digit_val_char)
    moreover have "nat_of_string (string_of_nat (n div 10)) = n div 10" using 1 False by simp
    ultimately show ?thesis using False
      by (subst string_of_nat.simps) (simp add: nat_of_string_def)
  qed
qed

lemma string_of_nat_inj: "string_of_nat a = string_of_nat b \<Longrightarrow> a = b"
  by (metis nat_of_string_of_nat)

lemma takeWhile_digits:
  "takeWhile (\<lambda>c. c \<noteq> CHR ''_'') (string_of_nat t @ ''_'' @ r) = string_of_nat t"
proof -
  have "\<forall>c \<in> set (string_of_nat t). c \<noteq> CHR ''_''"
    using string_of_nat_digits [of t] by auto
  then show ?thesis by (simp add: takeWhile_append2)
qed

lemma command_id_inj:
  "command_id t1 r1 = command_id t2 r2 \<longleftrightarrow> t1 = t2 \<and> r1 = r2"
proof
  assume "command_id t1 r1 = command_id t2 r2"
  then have eq: "string_of_nat t1 @ ''_'' @ r1 = string_of_nat t2 @ ''_'' @ r2"
    by (simp add: command_id_def)
  then have "takeWhile (\<lambda>c. c \<noteq> CHR ''_'') (string_of_nat t1 @ ''_'' @ r1)
           = takeWhile (\<lambda>c. c \<noteq> CHR ''_'') (string_of_nat t2 @ ''_'' @ r2)" by simp
  then have s: "string_of_nat t1 = string_of_nat t2" by (simp only: takeWhile_digits)
  then have "t1 = t2" by (rule string_of_nat_inj)
  moreover from eq s have "r1 = r2" by simp
  ultimately show "t1 = t2 \<and> r1 = r2" by simp
next
  assume "t1 = t2 \<and> r1 = r2"
  then show "command_id t1 r1 = command_id t2 r2" by simp
qed

lemma sample_id: "command_id 1700 ''k3x9q'' = ''cmd_1700_k3x9q''"
  by (simp add: command_id_def string_of_nat.simps digit_char_def)

lemma other_id: "command_id 1701 ''a7b2c'' = ''cmd_1701_a7b2c''"
  by (simp add: command_id_def string_of_nat.simps digit_char_def)

lemma batch_id: "command_id 1702 r = ''cmd_1702_'' @ r"
  by (simp add: command_id_def string_of_nat.simps digit_char_def)

lemma enqueue_step_eq:
  "enqueue_step c q =
     (map (\<lambda>(c, e). new_command c e) (call_items c),
      q\<lparr>commands := commands q @ map (\<lambda>(c, e). new_command c e) (call_items c),
        fileKey := call_fileKey c (fileKey q)\<rparr>)"
  by (cases c) (simp_all add: queueBatch_def queueCommand_eq queueCommands_eq call_fileKey_def)

lemma enqueue_run_made:
  "fst (enqueue_run calls q) = map (\<lambda>(c, e). new_command c e) (concat (map call_items calls))"
proof (induction calls arbitrary: q)
  case Nil
  show ?case by simp
next
  case (Cons c calls)
  show ?case
    by (simp add: split_beta Cons.IH enqueue_step_eq)
qed

lemma enqueue_run_commands:
  "commands (snd (enqueue_run calls q)) = commands q @ fst (enqueue_run calls q)"
proof (induction calls arbitrary: q)
  case Nil
  show ?case by simp
next
  case (Cons c calls)
  show ?case
    by (simp add: split_beta Cons.IH enqueue_step_eq enqueue_run_made)
qed

lemma enqueue_run_append:
  "enqueue_run (xs @ ys) q =
     (fst (enqueue_run xs q) @ fst (enqueue_run ys (snd (enqueue_run xs q))),
      snd (enqueue_run ys (snd (enqueue_run xs q))))"
  by (induction xs arbitrary: q) (simp_all add: split_beta Let_def)

lemma filter_new_commands:
  "filter (\<lambda>c. status c = pending) (map (\<lambda>(c, e). new_command c e) items)
     = map (\<lambda>(c, e). new_command c e) items"
  by (induction items) (simp_all add: split_beta new_command_fields)

lemma enqueue_run_pending:
  "getPendingCommands (snd (enqueue_run calls q)) = getPendingCommands q @ fst (enqueue_run calls q)"
  by (simp add: getPendingCommands_def enqueue_run_commands)
     (simp add: enqueue_run_made filter_new_commands)

lemma enqueue_run_truncate:
  "map CommandSpec.truncate (fst (enqueue_run calls q)) = map fst (concat (map call_items calls))"
  by (simp add: enqueue_run_made split_beta new_command_fields)

lemma getPendingCommands_filter:
  "getPendingCommands q = filter (\<lambda>c. status c = pending) (commands q)"
  by (simp add: getPendingCommands_def)

lemma find_first_index:
  "find (\<lambda>c. id_c c = i) cs = Some cmd
     \<Longrightarrow> first_index i cs < length cs \<and> cs ! first_index i cs = cmd \<and> id_c cmd = i"
  unfolding first_index_def by (induction cs) (auto split: if_splits)

lemma find_update_first:
  "find (\<lambda>c. id_c c = i) cs = Some cmd \<Longrightarrow> id_c cmd' = i
     \<Longrightarrow> find (\<lambda>c. id_c c = i) (cs[first_index i cs := cmd']) = Some cmd'"
  unfolding first_index_def by (induction cs) (auto split: if_splits)

lemma mark_complete_fields:
  "status (mark_complete res err now cmd) = (if js_truthy err then failed else completed)"
  "result (mark_complete res err now cmd) = res"
  "error (mark_complete res err now cmd) = err"
  "completedAt (mark_complete res err now cmd) = Some now"
  "id_c (mark_complete res err now cmd) = id_c cmd"
  "type (mark_complete res err now cmd) = type cmd"
  "params (mark_complete res err now cmd) = params cmd"
  "createdAt (mark_complete res err now cmd) = createdAt cmd"
  by (simp_all add: mark_complete_def)

lemma completeCommand_found:
  "find (\<lambda>c. id_c c = i) (commands q) = Some cmd \<Longrightarrow>
   completeCommand i res err now q =
     (True, q\<lparr>commands := (commands q)[first_index i (commands q) := mark_complete res err now cmd]\<rparr>)"
  by (simp add: completeCommand_def)

lemma completeCommand_missing:
  "find (\<lambda>c. id_c c = i) (commands q) = None \<Longrightarrow> completeCommand i res err now q = (False, q)"
  by (simp add: completeCommand_def)

lemma find_split:
  assumes "\<forall>x \<in> set pre. id_c x \<noteq> i" and "id_c c = i"
  shows "find (\<lambda>x. id_c x = i) (pre @ c # post) = Some c"
    and "first_index i (pre @ c # post) = length pre"
  using assms unfolding first_index_def by (induction pre) auto

lemma completeCommand_at:
  assumes "commands q = pre @ c # post" and "\<forall>x \<in> set pre. id_c x \<noteq> i" and "id_c c = i"
  shows "completeCommand i res err now q
           = (True, q\<lparr>commands := pre @ mark_complete res err now c # post\<rparr>)"
  using find_split [OF assms(2,3), of post]
  by (simp add: completeCommand_def assms(1))

lemma sample_done_eq:
  "sample_done = \<lparr>commands = [\<lparr>type = Some ''create_frame'', params = Some (JObj [(''name'', JStr ''Hero'')]),
                   result = Some (JStr ''first''), error = None, completedAt = Some 1800,
                   id_c = ''cmd_1700_k3x9q'', status = completed, createdAt = 1700\<rparr>], fileKey = None\<rparr>"
  by (simp add: sample_done_def completeCommand_def queueCommand_eq new_command_def sample_spec_def
      sample_entropy_def empty_queue_def sample_id CommandSpec.extend_def first_index_def mark_complete_def)

subsection \<open>Order of the pending commands\<close>

text \<open>
  C3 (FIFO visibility ordering). For every sequence of \<open>queueCommand\<close> and
  \<open>queueBatch\<close> calls, run on any queue, \<open>getPendingCommands\<close> afterwards returns exactly
  the commands stored before whose status is \<open>pending\<close>, in their stored order, followed
  by the enqueued commands in the exact order of enqueueing: a stored command that is
  completed or failed is not listed, and everything listed is pending. The stored sequence
  grows by the same commands in the same order, and each carries the fields the producer
  passed. In particular a batch \<open>[A, B, C]\<close>, enqueued after any such calls and followed by
  any such calls, shows in \<open>getPendingCommands\<close> as the three commands made from \<open>A\<close>, \<open>B\<close>
  and \<open>C\<close>, in that order and next to each other.
\<close>

theorem fifo_visibility:
  "getPendingCommands (snd (enqueue_run calls q))
     = filter (\<lambda>c. status c = pending) (commands q)
       @ map (\<lambda>(c, e). new_command c e) (concat (map call_items calls))
   \<and> commands (snd (enqueue_run calls q))
     = commands q @ map (\<lambda>(c, e). new_command c e) (concat (map call_items calls))
   \<and> fst (enqueue_run calls q) = map (\<lambda>(c, e). new_command c e) (concat (map call_items calls))
   \<and> map CommandSpec.truncate (fst (enqueue_run calls q)) = map fst (concat (map call_items calls))
   \<and> list_all (\<lambda>c. status c = pending) (getPendingCommands (snd (enqueue_run calls q)))
   \<and> getPendingCommands (snd (enqueue_run (before @ [EnqueueBatch fk [(A, ea), (B, eb), (C, ec)]] @ after) q))
       = filter (\<lambda>c. status c = pending) (commands q)
         @ fst (enqueue_run before q)
         @ [new_command A ea, new_command B eb, new_command C ec]
         @ fst (enqueue_run after (snd (enqueue_run (before @ [EnqueueBatch fk [(A, ea), (B, eb), (C, ec)]]) q)))
   \<and> map CommandSpec.truncate [new_command A ea, new_command B eb, new_command C ec] = [A, B, C]"
proof -
  let ?b = "EnqueueBatch fk [(A, ea), (B, eb), (C, ec)]"
  have 1: "getPendingCommands (snd (enqueue_run calls q))
     = filter (\<lambda>c. status c = pending) (commands q)
       @ map (\<lambda>(c, e). new_command c e) (concat (map call_items calls))"
    using enqueue_run_pending [of calls q] by (simp only: enqueue_run_made getPendingCommands_filter)
  have 2: "commands (snd (enqueue_run calls q))
     = commands q @ map (\<lambda>(c, e). new_command c e) (concat (map call_items calls))"
    using enqueue_run_commands [of calls q] by (simp only: enqueue_run_made)
  have 5: "list_all (\<lambda>c. status c = pending) (getPendingCommands (snd (enqueue_run calls q)))"
    by (simp add: getPendingCommands_def list_all_iff)
  have mid: "fst (enqueue_run (before @ [?b]) q)
               = fst (enqueue_run before q) @ [new_command A ea, new_command B eb, new_command C ec]"
    by (simp add: enqueue_run_made)
  have "fst (enqueue_run (before @ [?b] @ after) q)
          = fst (enqueue_run before q) @ [new_command A ea, new_command B eb, new_command C ec]
            @ fst (enqueue_run after (snd (enqueue_run (before @ [?b]) q)))"
    using enqueue_run_append [of "before @ [?b]" after q] by (simp add: mid)
  then have "getPendingCommands q @ fst (enqueue_run (before @ [?b] @ after) q)
       = filter (\<lambda>c. status c = pending) (commands q)
         @ fst (enqueue_run before q)
         @ [new_command A ea, new_command B eb, new_command C ec]
         @ fst (enqueue_run after (snd (enqueue_run (before @ [?b]) q)))"
    by (simp only: getPendingCommands_filter)
  then have 6: "getPendingCommands (snd (enqueue_run (before @ [?b] @ after) q))
       = filter (\<lambda>c. status c = pending) (commands q)
         @ fst (enqueue_run before q)
         @ [new_command A ea, new_command B eb, new_command C ec]
         @ fst (enqueue_run after (snd (enqueue_run (before @ [?b]) q)))"
    by (simp only: enqueue_run_pending)
  have 7: "map CommandSpec.truncate [new_command A ea, new_command B eb, new_command C ec] = [A, B, C]"
    by (simp add: new_command_fields)
  show ?thesis
    apply (intro conjI)
          apply (rule 1)
         apply (rule 2)
        apply (rule enqueue_run_made)
       apply (rule enqueue_run_truncate)
      apply (rule 5)
     apply (rule 6)
    apply (rule 7)
    done
qed

text \<open>
  C3, an instance: on a queue that holds one completed command, one enqueue and a batch
  of three make a stored sequence of five; \<open>getPendingCommands\<close> lists the four new
  commands in the order of enqueueing and leaves the completed one out.
\<close>

theorem fifo_visibility_witness:
  "map status (commands sample_done) = [completed]
   \<and> map (\<lambda>c. (id_c c, status c))
        (commands (snd (enqueue_run
           [Enqueue sample_spec other_entropy,
            EnqueueBatch ''file'' [(named_spec ''A'', batch_entropy ''aaa''),
                                   (named_spec ''B'', batch_entropy ''bbb''),
                                   (named_spec ''C'', batch_entropy ''ccc'')]] sample_done)))
       = [(''cmd_1700_k3x9q'', completed), (''cmd_1701_a7b2c'', pending),
          (''cmd_1702_aaa'', pending), (''cmd_1702_bbb'', pending), (''cmd_1702_ccc'', pending)]
   \<and> map (\<lambda>c. (id_c c, params c))
        (getPendingCommands (snd (enqueue_run
           [Enqueue sample_spec other_entropy,
            EnqueueBatch ''file'' [(named_spec ''A'', batch_entropy ''aaa''),
                                   (named_spec ''B'', batch_entropy ''bbb''),
                                   (named_spec ''C'', batch_entropy ''ccc'')]] sample_done)))
       = [(''cmd_1701_a7b2c'', Some (JObj [(''name'', JStr ''Hero'')])),
          (''cmd_1702_aaa'', Some (JObj [(''name'', JStr ''A'')])),
          (''cmd_1702_bbb'', Some (JObj [(''name'', JStr ''B'')])),
          (''cmd_1702_ccc'', Some (JObj [(''name'', JStr ''C'')]))]"
  using fifo_visibility [where q = sample_done
      and calls = "[Enqueue sample_spec other_entropy,
            EnqueueBatch ''file'' [(named_spec ''A'', batch_entropy ''aaa''),
                                   (named_spec ''B'', batch_entropy ''bbb''),
                                   (named_spec ''C'', batch_entropy ''ccc'')]]"]
  by (simp add: sample_done_eq new_command_def CommandSpec.extend_def sample_spec_def named_spec_def
      other_entropy_def batch_entropy_def other_id batch_id)

subsection \<open>Identifiers\<close>

text \<open>
  C4 (id uniqueness, as the code has it). The ids given out by a sequence of enqueue calls
  are pairwise distinct exactly when the pairs of clock reading and random suffix that went
  into them are pairwise distinct. So commands enqueued within the same millisecond get
  different ids if and only if their random suffixes differ; nothing in \<open>queueCommand\<close>
  looks at the ids already stored.
\<close>

theorem id_collision_iff:
  "distinct (map id_c (fst (enqueue_run calls q)))
     \<longleftrightarrow> distinct (map (\<lambda>(c, e). (now_id e, random_suffix e)) (concat (map call_items calls)))"
proof -
  let ?xs = "concat (map call_items calls)"
  let ?key = "\<lambda>(c :: CommandSpec, e). (now_id e, random_suffix e)"
  let ?h = "\<lambda>(t, r). command_id t r"
  have ids: "map id_c (fst (enqueue_run calls q)) = map ?h (map ?key ?xs)"
    by (simp add: enqueue_run_made split_beta new_command_fields)
  have "inj ?h"
    by (auto simp: inj_on_def command_id_inj)
  then have "inj_on ?h (set (map ?key ?xs))"
    by (rule inj_on_subset) simp
  then have "distinct (map ?h (map ?key ?xs)) = distinct (map ?key ?xs)"
    by (simp only: distinct_map simp_thms)
  then show ?thesis by (simp only: ids)
qed

text \<open>
  C4, the claim as stated fails: two enqueue calls that read the same millisecond and
  draw the same suffix give the same id twice.
\<close>

theorem id_collision_counterexample:
  "map id_c (fst (enqueue_run [Enqueue sample_spec sample_entropy, Enqueue sample_spec sample_entropy] empty_queue))
     = [''cmd_1700_k3x9q'', ''cmd_1700_k3x9q'']"
  by (simp add: queueCommand_eq new_command_fields sample_entropy_def sample_id)

subsection \<open>Validation\<close>

text \<open>
  C8 (producer-side validation, as the code has it). \<open>queueCommand\<close> validates nothing and
  never rejects: whatever the command spec, with or without a \<open>type\<close>, it appends exactly
  one command with status \<open>pending\<close> that carries the fields of the spec unchanged, and
  returns it; the command is listed by \<open>getPendingCommands\<close> at once.
\<close>

theorem enqueue_accepts_every_spec:
  "queueCommand command e q
     = (new_command command e, q\<lparr>commands := commands q @ [new_command command e]\<rparr>)
   \<and> CommandSpec.truncate (new_command command e) = command
   \<and> type (new_command command e) = type command
   \<and> status (new_command command e) = pending
   \<and> getPendingCommands (snd (queueCommand command e q))
       = getPendingCommands q @ [new_command command e]"
  by (simp add: queueCommand_eq new_command_fields getPendingCommands_def)
     (simp add: new_command_def CommandSpec.extend_def)

text \<open>
  C8, the claim as stated fails: a spec without \<open>type\<close> is accepted into the queue and
  served as pending.
\<close>

theorem missing_type_accepted_counterexample:
  "getPendingCommands (snd (queueCommand typeless_spec sample_entropy empty_queue))
     = [\<lparr>type = None, params = Some (JObj [(''name'', JStr ''Hero'')]),
         result = None, error = None, completedAt = None,
         id_c = ''cmd_1700_k3x9q'', status = pending, createdAt = 1700\<rparr>]"
  by (simp add: getPendingCommands_def queueCommand_eq new_command_def typeless_spec_def
      sample_entropy_def empty_queue_def sample_id CommandSpec.extend_def)

subsection \<open>Completing twice\<close>

text \<open>
  C2 (re-completing a terminal command, as the code has it). For a command that is stored
  under the id and is already \<open>completed\<close> or \<open>failed\<close>, a further \<open>completeCommand\<close> returns
  true (the function has no throwing path) and overwrites \<open>result\<close>, \<open>error\<close> and
  \<open>completedAt\<close> of the first command with that id; its status is recomputed from the
  truthiness of \<open>error\<close>: \<open>failed\<close> when the error is truthy (a non-empty string, say),
  \<open>completed\<close> when it is absent or falsy (the empty string, say). The command is again in
  a terminal state, every other command and the file key are as before.
\<close>

theorem recomplete_overwrites:
  assumes found: "find (\<lambda>c. id_c c = i) (commands q) = Some cmd"
      and terminal: "status cmd = completed \<or> status cmd = failed"
  shows "fst (completeCommand i res err now q) = True
       \<and> find (\<lambda>c. id_c c = i) (commands (snd (completeCommand i res err now q)))
           = Some (cmd\<lparr>status := (if js_truthy err then failed else completed),
                       result := res, error := err, completedAt := Some now\<rparr>)
       \<and> (status (mark_complete res err now cmd) = completed
            \<or> status (mark_complete res err now cmd) = failed)
       \<and> commands (snd (completeCommand i res err now q))
           = (commands q)[first_index i (commands q) := mark_complete res err now cmd]
       \<and> fileKey (snd (completeCommand i res err now q)) = fileKey q"
proof -
  have id: "id_c (mark_complete res err now cmd) = i"
    using find_first_index [OF found] by (simp add: mark_complete_fields)
  have "find (\<lambda>c. id_c c = i) ((commands q)[first_index i (commands q) := mark_complete res err now cmd])
          = Some (mark_complete res err now cmd)"
    using found id by (rule find_update_first)
  then show ?thesis
    by (simp add: completeCommand_found [OF found] mark_complete_def)
qed

text \<open>
  C2, an instance: a command completed with a result is completed again with an error.
\<close>

theorem recomplete_overwrites_witness:
  "find (\<lambda>c. id_c c = ''cmd_1700_k3x9q'') (commands sample_done) = Some (hd (commands sample_done))
   \<and> status (hd (commands sample_done)) = completed
   \<and> fst (completeCommand ''cmd_1700_k3x9q'' None (Some (JStr ''boom'')) 1900 sample_done) = True
   \<and> map status (commands (snd (completeCommand ''cmd_1700_k3x9q'' None (Some (JStr ''boom'')) 1900 sample_done))) = [failed]
   \<and> map result (commands (snd (completeCommand ''cmd_1700_k3x9q'' None (Some (JStr ''boom'')) 1900 sample_done))) = [None]
   \<and> map completedAt (commands (snd (completeCommand ''cmd_1700_k3x9q'' None (Some (JStr ''boom'')) 1900 sample_done))) = [Some 1900]"
proof -
  have f: "find (\<lambda>c. id_c c = ''cmd_1700_k3x9q'') (commands sample_done) = Some (hd (commands sample_done))"
    by (simp add: sample_done_eq)
  have t: "status (hd (commands sample_done)) = completed \<or> status (hd (commands sample_done)) = failed"
    by (simp add: sample_done_eq)
  show ?thesis
    using recomplete_overwrites [OF f t, of None "Some (JStr ''boom'')" 1900]
    by (simp add: sample_done_eq first_index_def mark_complete_def)
qed

text \<open>
  C2, the claim as stated fails: re-completing with the empty string as error stores that
  error, so an error is present, and yet the status is \<open>completed\<close>.
\<close>

theorem recomplete_empty_error_counterexample:
  "map status (commands (snd (completeCommand ''cmd_1700_k3x9q'' None (Some (JStr [])) 1900 sample_done)))
     = [completed]
   \<and> map error (commands (snd (completeCommand ''cmd_1700_k3x9q'' None (Some (JStr [])) 1900 sample_done)))
     = [Some (JStr [])]"
  by (simp add: sample_done_eq completeCommand_def first_index_def mark_complete_def)

section \<open>Properties of the relay\<close>

subsection \<open>Completion reports\<close>

lemma takeWhile_until_slash:
  "CHR ''/'' \<notin> set i \<Longrightarrow> takeWhile (\<lambda>c. c \<noteq> CHR ''/'') (i @ CHR ''/'' # t) = i"
  by (induction i) auto

lemma dropWhile_until_slash:
  "CHR ''/'' \<notin> set i \<Longrightarrow> dropWhile (\<lambda>c. c \<noteq> CHR ''/'') (i @ CHR ''/'' # t) = CHR ''/'' # t"
  by (induction i) auto

lemma complete_match_path:
  assumes "i \<noteq> []" and "CHR ''/'' \<notin> set i"
  shows "complete_match (''/commands/'' @ i @ ''/complete'') = Some i"
  using assms
  by (simp add: complete_match_def Let_def takeWhile_until_slash dropWhile_until_slash)


lemma read_report_empty: "read_report parse [] = Some (None, None)"
  by (simp add: read_report_def)



lemma handle_complete_route:
  assumes "httpMethod req = ''POST''" and "complete_match (pathname req) = Some i"
  shows "handle_request parse port now req q =
           (case read_report parse (body req) of
              None \<Rightarrow> (respond_json 400 (ErrorText ''Invalid JSON''), q)
            | Some (res, err) \<Rightarrow>
                (respond_json (if fst (completeCommand i res err now q) then 200 else 404)
                              (SuccessFlag (fst (completeCommand i res err now q))),
                 snd (completeCommand i res err now q)))"
  using assms by (simp add: handle_request_def split_beta split: option.splits)








subsection \<open>Reports with an empty body\<close>

lemma complete_request_route:
  assumes "i \<noteq> []" and "CHR ''/'' \<notin> set i"
  shows "httpMethod (complete_request i b) = ''POST''"
    and "complete_match (pathname (complete_request i b)) = Some i"
    and "body (complete_request i b) = b"
  using complete_match_path [OF assms] by (simp_all add: complete_request_def)

lemma report_delivered:
  assumes q: "commands q = pre @ c # post" and pre: "\<forall>x \<in> set pre. id_c x \<noteq> i" and c: "id_c c = i"
      and i: "i \<noteq> []" "CHR ''/'' \<notin> set i"
      and r: "read_report parse b = Some (res, err)"
  shows "handle_request parse port now (complete_request i b) q
           = (\<lparr>statusCode = 200,
               headers = cors_headers @ [(''Content-Type'', ''application/json'')],
               payload = SuccessFlag True\<rparr>,
              q\<lparr>commands := pre @ mark_complete res err now c # post\<rparr>)"
  using handle_complete_route [OF complete_request_route(1,2) [OF i],
      where b1 = b and parse = parse and port = port and now = now and q = q]
  by (simp add: complete_request_route(3) [OF i] r completeCommand_at [OF q pre c]
      respond_json_def respond_def)

lemma sample_two_eq:
  "sample_two =
     \<lparr>commands =
        [\<lparr>type = None, params = Some (JObj [(''name'', JStr ''Hero'')]),
          result = None, error = None, completedAt = None,
          id_c = ''cmd_1701_a7b2c'', status = pending, createdAt = 1701\<rparr>,
         \<lparr>type = Some ''create_frame'', params = Some (JObj [(''name'', JStr ''Hero'')]),
          result = None, error = None, completedAt = None,
          id_c = ''cmd_1700_k3x9q'', status = pending, createdAt = 1700\<rparr>],
      fileKey = None\<rparr>"
  by (simp add: sample_two_def queueCommand_eq new_command_def sample_spec_def typeless_spec_def
      sample_entropy_def other_entropy_def empty_queue_def sample_id other_id CommandSpec.extend_def)

lemma sample_twins_eq:
  "sample_twins =
     \<lparr>commands =
        [\<lparr>type = Some ''create_frame'', params = Some (JObj [(''name'', JStr ''Hero'')]),
          result = None, error = None, completedAt = None,
          id_c = ''cmd_1700_k3x9q'', status = pending, createdAt = 1700\<rparr>,
         \<lparr>type = None, params = Some (JObj [(''name'', JStr ''Hero'')]),
          result = None, error = None, completedAt = None,
          id_c = ''cmd_1700_k3x9q'', status = pending, createdAt = 1700\<rparr>],
      fileKey = None\<rparr>"
  by (simp add: sample_twins_def queueCommand_eq new_command_def sample_spec_def typeless_spec_def
      sample_entropy_def empty_queue_def sample_id CommandSpec.extend_def)

text \<open>
  C10 (completion with an empty body, as the code has it). Let the queue hold a command
  under the id, with no command of that id before it (the id is non-empty and without a
  slash, as every id the queue makes is). A \<open>POST /commands/{id}/complete\<close> with an empty
  body is not rejected: the body counts as \<open>{}\<close>, so \<open>completeCommand\<close> runs with \<open>result\<close>
  and \<open>error\<close> both undefined; that command, the first with the id, becomes \<open>completed\<close>,
  with \<open>completedAt\<close> set to the clock reading and no result and no error; every other
  command, a later one with the same id included, stays as it was; and the relay answers
  200 with \<open>{success: true}\<close>, under the CORS headers and the JSON content type.
\<close>

theorem empty_body_completion:
  assumes stored: "commands q = pre @ cmd # post"
      and first: "\<forall>x \<in> set pre. id_c x \<noteq> i" and same: "id_c cmd = i"
      and nonempty: "i \<noteq> []" and noslash: "CHR ''/'' \<notin> set i"
  shows "read_report parse [] = Some (None, None)
       \<and> handle_request parse port now
            \<lparr>httpMethod = ''POST'', pathname = ''/commands/'' @ i @ ''/complete'', body = []\<rparr> q
          = (\<lparr>statusCode = 200,
              headers = cors_headers @ [(''Content-Type'', ''application/json'')],
              payload = SuccessFlag True\<rparr>,
             q\<lparr>commands := pre @ cmd\<lparr>status := completed, result := None, error := None,
                                       completedAt := Some now\<rparr> # post\<rparr>)"
  using report_delivered [OF stored first same nonempty noslash read_report_empty, where port = port and now = now]
  by (simp add: read_report_empty complete_request_def mark_complete_def)

text \<open>
  C10, an instance: in a queue of two the second command is completed by an empty report,
  and the first is untouched.
\<close>

theorem empty_body_completion_witness:
  "commands sample_two = [hd (commands sample_two)] @ commands sample_two ! 1 # []
   \<and> id_c (hd (commands sample_two)) \<noteq> ''cmd_1700_k3x9q''
   \<and> id_c (commands sample_two ! 1) = ''cmd_1700_k3x9q''
   \<and> ''cmd_1700_k3x9q'' \<noteq> [] \<and> CHR ''/'' \<notin> set ''cmd_1700_k3x9q''
   \<and> fst (handle_request parse_sample 3847 1900 (complete_request ''cmd_1700_k3x9q'' []) sample_two)
       = \<lparr>statusCode = 200,
          headers = [(''Access-Control-Allow-Origin'', ''*''),
                     (''Access-Control-Allow-Methods'', ''GET, POST, DELETE, OPTIONS''),
                     (''Access-Control-Allow-Headers'', ''Content-Type''),
                     (''Content-Type'', ''application/json'')],
          payload = SuccessFlag True\<rparr>
   \<and> map (\<lambda>c. (id_c c, status c, result c, error c, completedAt c))
         (commands (snd (handle_request parse_sample 3847 1900
                           (complete_request ''cmd_1700_k3x9q'' []) sample_two)))
       = [(''cmd_1701_a7b2c'', pending, None, None, None),
          (''cmd_1700_k3x9q'', completed, None, None, Some 1900)]"
proof -
  have a: "commands sample_two = [hd (commands sample_two)] @ commands sample_two ! 1 # []"
    by (simp add: sample_two_eq)
  have b: "\<forall>x \<in> set [hd (commands sample_two)]. id_c x \<noteq> ''cmd_1700_k3x9q''"
    by (simp add: sample_two_eq)
  have c: "id_c (commands sample_two ! 1) = ''cmd_1700_k3x9q''"
    by (simp add: sample_two_eq)
  have n: "''cmd_1700_k3x9q'' \<noteq> []" by simp
  have s: "CHR ''/'' \<notin> set ''cmd_1700_k3x9q''" by simp
  show ?thesis
    using empty_body_completion [OF a b c n s, where parse = parse_sample and port = 3847 and now = 1900]
    by (simp add: complete_request_def sample_two_eq cors_headers_def)
qed

text \<open>
  C10, the claim as stated fails: two commands are queued under one id; the empty report
  is answered 200 and completes the first of them, and the second stays \<open>pending\<close>.
\<close>

theorem empty_body_twin_counterexample:
  "map id_c (commands sample_twins) = [''cmd_1700_k3x9q'', ''cmd_1700_k3x9q'']
   \<and> statusCode (fst (handle_request parse_sample 3847 1900
                        (complete_request ''cmd_1700_k3x9q'' []) sample_twins)) = 200
   \<and> payload (fst (handle_request parse_sample 3847 1900
                     (complete_request ''cmd_1700_k3x9q'' []) sample_twins)) = SuccessFlag True
   \<and> map status (commands (snd (handle_request parse_sample 3847 1900
                                   (complete_request ''cmd_1700_k3x9q'' []) sample_twins)))
       = [completed, pending]"
  by (simp add: sample_twins_eq handle_request_def complete_request_def complete_match_def
      read_report_def completeCommand_def first_index_def mark_complete_def respond_json_def
      respond_def)

subsection \<open>Retention\<close>







section \<open>Properties of the executor\<close>

subsection \<open>The in-flight set\<close>

lemma emit_simps:
  "isRunning (emit e s) = isRunning s"
  "executingCommands (emit e s) = executingCommands s"
  "timers (emit e s) = timers s"
  "clock (emit e s) = clock s"
  "tasks (emit e s) = tasks s"
  "document (emit e s) = document s"
  "trace (emit e s) = trace s @ [(clock s, e)]"
  by (simp_all add: emit_def)

lemma setTimeout_simps:
  "isRunning (setTimeout a d s) = isRunning s"
  "executingCommands (setTimeout a d s) = executingCommands s"
  "timers (setTimeout a d s) = timers s @ [(clock s + d, a)]"
  "clock (setTimeout a d s) = clock s"
  "tasks (setTimeout a d s) = tasks s"
  "document (setTimeout a d s) = document s"
  "trace (setTimeout a d s) = trace s"
  by (simp_all add: setTimeout_def)

lemma pollCommands_simps:
  "executingCommands (pollCommands s) = executingCommands s"
  "timers (pollCommands s) = timers s"
  "clock (pollCommands s) = clock s"
  "document (pollCommands s) = document s"
  "trace (pollCommands s) = (if isRunning s then trace s @ [(clock s, GetCommands)] else trace s)"
  "tasks (pollCommands s) = (if isRunning s then tasks s @ [AwaitingCommands] else tasks s)"
  by (simp_all add: pollCommands_def emit_def)

lemma finish_iteration_simps:
  "executingCommands (finish_iteration cmd s) = executingCommands s"
  "clock (finish_iteration cmd s) = clock s"
  "tasks (finish_iteration cmd s) = tasks s"
  "trace (finish_iteration cmd s) = trace s"
  "timers (finish_iteration cmd s)
     = timers s @ [(clock s + 5000, Evict (id_c cmd))]"
  by (simp_all add: finish_iteration_def setTimeout_def)

lemma resume_simps:
  "executingCommands (resume k st) = executingCommands (fst st)"
  "timers (resume k st) = timers (fst st)"
  "clock (resume k st) = clock (fst st)"
  "trace (resume k st) = trace (fst st)"
  "tasks (resume k st) = (tasks (fst st))[k := snd st]"
  by (simp_all add: resume_def)

lemma dispatches_emit:
  "dispatches i (emit e s) = dispatches i s + (if is_dispatch i (clock s, e) then 1 else 0)"
  by (simp add: dispatches_def emit_def)

lemma dispatches_trace: "trace s' = trace s \<Longrightarrow> dispatches i s' = dispatches i s"
  by (simp add: dispatches_def)

lemma run_loop_skip:
  "id_c cmd \<in> executingCommands s
     \<Longrightarrow> run_loop pf (cmd # rest) s = run_loop pf rest s"
  by simp

lemma run_loop_frame:
  "clock (fst (run_loop pf cmds s)) = clock s
   \<and> tasks (fst (run_loop pf cmds s)) = tasks s
   \<and> executingCommands s \<subseteq> executingCommands (fst (run_loop pf cmds s))"
proof (induction cmds)
  case Nil
  show ?case by (simp add: setTimeout_simps)
next
  case (Cons cmd rest)
  show ?case
    using Cons.IH
    by (auto simp add: Let_def emit_simps split: option.splits prod.splits)
qed

lemma run_loop_dispatch:
  "dispatches i (fst (run_loop pf cmds s)) = dispatches i s
   \<or> (dispatches i (fst (run_loop pf cmds s)) = Suc (dispatches i s)
       \<and> i \<notin> executingCommands s
       \<and> i \<in> executingCommands (fst (run_loop pf cmds s)))"
proof (induction cmds)
  case Nil
  show ?case by (simp add: dispatches_def setTimeout_simps)
next
  case (Cons cmd rest)
  show ?case
  proof (cases "id_c cmd \<in> executingCommands s")
    case True
    then show ?thesis using Cons.IH by simp
  next
    case False
    then show ?thesis
      by (auto simp add: Let_def dispatches_def emit_def split: option.splits prod.splits)
  qed
qed

lemma run_loop_timers:
  "timers (fst (run_loop pf cmds s)) = timers s
   \<or> timers (fst (run_loop pf cmds s)) = timers s @ [(clock s + POLL_INTERVAL, Poll)]"
proof (induction cmds)
  case Nil
  show ?case by (simp add: setTimeout_simps)
next
  case (Cons cmd rest)
  show ?case
    using Cons.IH
    by (auto simp add: Let_def emit_simps split: option.splits prod.splits)
qed

lemma receive_dispatch: "dispatches i (receive m s) = dispatches i s"
  by (cases m) (simp_all add: dispatches_def emit_def pollCommands_def)

lemma fire_dispatch: "dispatches i (fire a s) = dispatches i s"
  by (cases a) (simp_all add: dispatches_def emit_def pollCommands_def)

lemma resume_dispatch: "dispatches i (resume k st) = dispatches i (fst st)"
  by (simp add: dispatches_def resume_def)

lemma dispatches_frame:
  "dispatches i (setTimeout a d s) = dispatches i s"
  "dispatches i (finish_iteration cmd s) = dispatches i s"
  "dispatches i (s\<lparr>timers := ts\<rparr>) = dispatches i s"
  "dispatches i (s\<lparr>clock := c\<rparr>) = dispatches i s"
  by (simp_all add: dispatches_def setTimeout_simps finish_iteration_simps)

lemma step_dispatch:
  "dispatches i (step pf e s) = dispatches i s
   \<or> (dispatches i (step pf e s) = Suc (dispatches i s)
       \<and> i \<notin> executingCommands s
       \<and> i \<in> executingCommands (step pf e s))"
proof (cases e)
  case (Message m)
  then show ?thesis by (simp add: receive_dispatch)
next
  case (CommandsSettled k r)
  show ?thesis
  proof (cases "task_at s k")
    case AwaitingCommands
    show ?thesis
    proof (cases r)
      case None
      then show ?thesis
        using CommandsSettled AwaitingCommands
        by (simp add: resume_dispatch dispatches_frame)
    next
      case (Some cmds)
      then show ?thesis
        using CommandsSettled AwaitingCommands run_loop_dispatch [of i pf cmds s]
        by (simp add: resume_dispatch resume_simps)
    qed
  qed (simp_all add: CommandsSettled)
next
  case (HandlerSettled k)
  show ?thesis
    by (cases "task_at s k")
       (simp_all add: HandlerSettled resume_dispatch dispatches_emit split: outcome.splits)
next
  case (ReportSettled k r)
  show ?thesis
  proof (cases "task_at s k")
    case (AwaitingReport cmd rest caught)
    let ?ok = "finish_iteration cmd (emit (Notify False (type_text cmd)) s)"
    let ?ko = "\<lambda>msg. finish_iteration cmd
                 (emit (Notify True (type_text cmd @ '': '' @ msg)) s)"
    have ok: "dispatches i ?ok = dispatches i s" "executingCommands ?ok = executingCommands s"
      by (simp_all add: dispatches_frame dispatches_emit finish_iteration_simps emit_simps)
    have ko: "\<And>msg. dispatches i (?ko msg) = dispatches i s"
             "\<And>msg. executingCommands (?ko msg) = executingCommands s"
      by (simp_all add: dispatches_frame dispatches_emit finish_iteration_simps emit_simps)
    show ?thesis
    proof (cases r)
      case None
      show ?thesis
      proof (cases caught)
        case None
        then show ?thesis
          using ReportSettled AwaitingReport \<open>r = None\<close> run_loop_dispatch [of i pf rest ?ok] ok
          by (simp add: resume_dispatch resume_simps)
      next
        case (Some msg)
        then show ?thesis
          using ReportSettled AwaitingReport \<open>r = None\<close> run_loop_dispatch [of i pf rest "?ko msg"] ko
          by (simp add: resume_dispatch resume_simps)
      qed
    next
      case (Some rejected)
      then show ?thesis
        using ReportSettled AwaitingReport
        by (cases caught)
           (simp_all add: resume_dispatch dispatches_emit dispatches_frame)
    qed
  qed (simp_all add: ReportSettled)
next
  case (TimerFired j)
  then show ?thesis
    by (simp add: fire_dispatch dispatches_frame)
next
  case (Elapse d)
  then show ?thesis by (simp add: dispatches_frame)
qed

lemma step_keeps_or_evicts:
  assumes "i \<in> executingCommands s" and "i \<notin> executingCommands (step pf e s)"
  shows "(\<exists>m. e = Message m)
       \<or> (\<exists>j due. e = TimerFired j \<and> j < length (timers s)
                  \<and> timers s ! j = (due, Evict i) \<and> due \<le> clock s)"
proof (cases e)
  case (Message m)
  then show ?thesis by simp
next
  case (CommandsSettled k r)
  have "executingCommands s \<subseteq> executingCommands (step pf e s)"
    using run_loop_frame [of pf _ s]
    by (auto simp add: CommandsSettled resume_simps setTimeout_simps
        split: task.splits option.splits)
  with assms show ?thesis by blast
next
  case (HandlerSettled k)
  have "executingCommands (step pf e s) = executingCommands s"
    by (auto simp add: HandlerSettled resume_simps emit_simps split: task.splits outcome.splits)
  with assms show ?thesis by simp
next
  case (ReportSettled k r)
  have "executingCommands s \<subseteq> executingCommands (step pf e s)"
  proof (cases "task_at s k")
    case (AwaitingReport cmd rest caught)
    have a: "\<And>s'. executingCommands s' = executingCommands s
               \<Longrightarrow> executingCommands s \<subseteq> executingCommands (fst (run_loop pf rest s'))"
      using run_loop_frame [of pf rest] by metis
    show ?thesis
      using AwaitingReport
      by (cases r; cases caught)
         (simp_all add: ReportSettled resume_simps setTimeout_simps finish_iteration_simps
            emit_simps a)
  qed (simp_all add: ReportSettled)
  with assms show ?thesis by blast
next
  case (TimerFired j)
  show ?thesis
  proof (cases "j < length (timers s) \<and> fst (timers s ! j) \<le> clock s")
    case False
    then have "step pf e s = s" by (auto simp add: TimerFired)
    with assms show ?thesis by simp
  next
    case True
    obtain due a where t: "timers s ! j = (due, a)" by (cases "timers s ! j")
    show ?thesis
    proof (cases a)
      case (Evict i')
      then have "i' = i" using assms True t by (auto simp add: TimerFired)
      then show ?thesis using True t Evict TimerFired by simp
    next
      case Poll
      then have "executingCommands (step pf e s) = executingCommands s"
        using True t by (simp add: TimerFired pollCommands_simps)
      with assms show ?thesis by simp
    qed
  qed
next
  case (Elapse d)
  with assms show ?thesis by simp
qed

lemma run_at_most_once:
  assumes "\<forall>n < length evs. i \<in> executingCommands (run pf (take n evs) s)
             \<longrightarrow> i \<in> executingCommands (run pf (take (Suc n) evs) s)"
  shows "dispatches i (run pf evs s)
           \<le> dispatches i s + (if i \<in> executingCommands s then 0 else 1)"
  using assms
proof (induction evs arbitrary: s)
  case Nil
  show ?case by simp
next
  case (Cons e es)
  have kept: "i \<in> executingCommands s \<longrightarrow> i \<in> executingCommands (step pf e s)"
    using Cons.prems [rule_format, of 0] by simp
  have tail: "\<forall>n < length es. i \<in> executingCommands (run pf (take n es) (step pf e s))
             \<longrightarrow> i \<in> executingCommands (run pf (take (Suc n) es) (step pf e s))"
  proof (intro allI impI)
    fix n
    assume "n < length es"
      and "i \<in> executingCommands (run pf (take n es) (step pf e s))"
    then show "i \<in> executingCommands (run pf (take (Suc n) es) (step pf e s))"
      using Cons.prems [rule_format, of "Suc n"] by simp
  qed
  have ih: "dispatches i (run pf es (step pf e s))
          \<le> dispatches i (step pf e s)
            + (if i \<in> executingCommands (step pf e s) then 0 else 1)"
    using Cons.IH [OF tail] .
  show ?case
    using ih kept step_dispatch [of i pf e s]
    by (auto split: if_splits)
qed

lemma reported_before_mono:
  assumes "reported_before i d1 s" and "trace s' = trace s @ added" and "d1 \<le> d2"
  shows "reported_before i d2 s'"
proof -
  from assms(1) obtain t e where "(t, e) \<in> set (trace s)" "is_report i e" "t + 5000 \<le> d1"
    by (auto simp add: reported_before_def list_ex_iff)
  then have "(t, e) \<in> set (trace s')" "is_report i e \<and> t + 5000 \<le> d2"
    using assms(2,3) by simp_all
  then show ?thesis
    unfolding reported_before_def list_ex_iff by (intro bexI [of _ "(t, e)"]) simp_all
qed

lemma task_reported_mono:
  assumes "task_reported s t" and "trace s' = trace s @ added" and "clock s \<le> clock s'"
  shows "task_reported s' t"
  using assms by (cases t) (auto intro: reported_before_mono)

lemma timer_reported_mono:
  assumes "timer_reported s x" and "trace s' = trace s @ added"
  shows "timer_reported s' x"
proof -
  obtain due a where x: "x = (due, a)" by (cases x)
  show ?thesis
    using assms unfolding x by (cases a) (auto intro: reported_before_mono)
qed

lemma consistent_grow:
  assumes c: "consistent s"
      and tr: "trace s' = trace s @ added"
      and st: "\<forall>x \<in> set added. fst x \<le> clock s'"
      and cl: "clock s \<le> clock s'"
      and ta: "\<forall>t \<in> set (tasks s'). t \<in> set (tasks s) \<or> task_reported s' t"
      and ti: "\<forall>x \<in> set (timers s'). x \<in> set (timers s) \<or> timer_reported s' x"
  shows "consistent s'"
proof -
  have "stamped s'"
    using c tr st cl by (fastforce simp add: consistent_def stamped_def list_all_iff)
  moreover have "list_all (task_reported s') (tasks s')"
    unfolding list_all_iff
  proof
    fix t assume "t \<in> set (tasks s')"
    with ta have "t \<in> set (tasks s) \<or> task_reported s' t" by blast
    then show "task_reported s' t"
    proof
      assume "t \<in> set (tasks s)"
      then have "task_reported s t" using c by (simp add: consistent_def list_all_iff)
      then show ?thesis using tr cl by (rule task_reported_mono)
    qed
  qed
  moreover have "list_all (timer_reported s') (timers s')"
    unfolding list_all_iff
  proof
    fix x assume "x \<in> set (timers s')"
    with ti have "x \<in> set (timers s) \<or> timer_reported s' x" by blast
    then show "timer_reported s' x"
    proof
      assume "x \<in> set (timers s)"
      then have "timer_reported s x" using c by (simp add: consistent_def list_all_iff)
      then show ?thesis using tr by (rule timer_reported_mono)
    qed
  qed
  ultimately show ?thesis by (simp add: consistent_def)
qed

lemma run_loop_shape:
  "\<exists>added. trace (fst (run_loop pf cmds s)) = trace s @ added
         \<and> (\<forall>x \<in> set added. fst x = clock s)
         \<and> task_reported (fst (run_loop pf cmds s)) (snd (run_loop pf cmds s))"
proof (induction cmds)
  case Nil
  show ?case by (simp add: setTimeout_simps)
next
  case (Cons cmd rest)
  show ?case
  proof (cases "id_c cmd \<in> executingCommands s")
    case True
    then show ?thesis using Cons.IH by simp
  next
    case False
    show ?thesis
    proof (cases "lookup_handler (type_text cmd)")
      case None
      then show ?thesis
        using False
        by (simp add: Let_def emit_def reported_before_def)
    next
      case (Some h)
      then show ?thesis
        using False
        by (auto simp add: Let_def emit_def split: prod.splits)
    qed
  qed
qed

lemma task_at_reported:
  assumes "consistent s" and "task_at s k = AwaitingReport cmd rest caught"
  shows "reported_before (id_c cmd) (clock s + 5000) s"
proof -
  have k: "k < length (tasks s)"
    using assms(2) by (auto simp add: task_at_def split: if_splits)
  then have "task_reported s (tasks s ! k)"
    using assms(1) by (simp add: consistent_def list_all_length)
  then show ?thesis using assms(2) k by (simp add: task_at_def)
qed

lemma set_resume: "set (tasks (resume k (s1, t))) \<subseteq> insert t (set (tasks s1))"
  by (simp add: resume_simps set_update_subset_insert)

lemma set_without: "set (take j xs @ drop (Suc j) xs) \<subseteq> set xs"
  by (auto dest: in_set_takeD in_set_dropD)

lemma consistent_after_loop:
  assumes c: "consistent s0"
      and tr: "trace s1 = trace s0 @ pre" and st: "\<forall>x \<in> set pre. fst x \<le> clock s0"
      and cl: "clock s1 = clock s0" and ta: "tasks s1 = tasks s0"
      and ti: "\<forall>x \<in> set (timers s1). x \<in> set (timers s0) \<or> timer_reported s1 x"
  shows "consistent (resume k (run_loop pf cmds s1))"
proof -
  let ?r = "run_loop pf cmds s1"
  obtain added where m: "trace (fst ?r) = trace s1 @ added" "\<forall>x \<in> set added. fst x = clock s1"
    and tk: "task_reported (fst ?r) (snd ?r)"
    using run_loop_shape [of pf cmds s1] by blast
  have fr: "clock (fst ?r) = clock s1" "tasks (fst ?r) = tasks s1"
    using run_loop_frame [of pf cmds s1] by simp_all
  have tm: "timers (fst ?r) = timers s1 \<or> timers (fst ?r) = timers s1 @ [(clock s1 + POLL_INTERVAL, Poll)]"
    by (rule run_loop_timers)
  have same: "\<And>t. task_reported (resume k ?r) t = task_reported (fst ?r) t"
    by (case_tac t) (simp_all add: reported_before_def resume_simps)
  have samet: "\<And>x. timer_reported (resume k ?r) x = timer_reported (fst ?r) x"
    by (case_tac x, case_tac b) (simp_all add: reported_before_def resume_simps)
  show ?thesis
  proof (rule consistent_grow [OF c, of _ "pre @ added"])
    show "trace (resume k ?r) = trace s0 @ pre @ added"
      by (simp add: resume_simps m tr)
    show "\<forall>x \<in> set (pre @ added). fst x \<le> clock (resume k ?r)"
      using st m(2) by (auto simp add: resume_simps fr cl)
    show "clock s0 \<le> clock (resume k ?r)"
      by (simp add: resume_simps fr cl)
    show "\<forall>t \<in> set (tasks (resume k ?r)). t \<in> set (tasks s0) \<or> task_reported (resume k ?r) t"
    proof
      fix t assume "t \<in> set (tasks (resume k ?r))"
      then have "t = snd ?r \<or> t \<in> set (tasks (fst ?r))"
        using set_resume [of k "fst ?r" "snd ?r"] by auto
      then show "t \<in> set (tasks s0) \<or> task_reported (resume k ?r) t"
        using tk by (auto simp add: same fr ta)
    qed
    show "\<forall>x \<in> set (timers (resume k ?r)). x \<in> set (timers s0) \<or> timer_reported (resume k ?r) x"
    proof
      fix x assume "x \<in> set (timers (resume k ?r))"
      then have "x \<in> set (timers s1) \<or> x = (clock s1 + POLL_INTERVAL, Poll)"
        using tm by (auto simp add: resume_simps)
      then show "x \<in> set (timers s0) \<or> timer_reported (resume k ?r) x"
      proof
        assume "x \<in> set (timers s1)"
        with ti have "x \<in> set (timers s0) \<or> timer_reported s1 x" by blast
        then show ?thesis
        proof
          assume "timer_reported s1 x"
          then have "timer_reported (fst ?r) x" using m(1) by (rule timer_reported_mono)
          then show ?thesis by (simp add: samet)
        qed simp
      next
        assume "x = (clock s1 + POLL_INTERVAL, Poll)"
        then show ?thesis by simp
      qed
    qed
  qed
qed

lemma task_reported_cong:
  "trace s' = trace s \<Longrightarrow> clock s' = clock s \<Longrightarrow> task_reported s' t = task_reported s t"
  by (cases t) (simp_all add: reported_before_def)

lemma timer_reported_cong:
  assumes "trace s' = trace s"
  shows "timer_reported s' x = timer_reported s x"
proof -
  obtain due a where x: "x = (due, a)" by (cases x)
  show ?thesis unfolding x using assms by (cases a) (simp_all add: reported_before_def)
qed

lemma consistent_cong:
  assumes tr: "trace s' = trace s" and cl: "clock s' = clock s"
      and ta: "tasks s' = tasks s" and ti: "timers s' = timers s"
  shows "consistent s' = consistent s"
proof -
  have "list_all (task_reported s') (tasks s) = list_all (task_reported s) (tasks s)"
    by (rule list.pred_cong) (simp_all add: task_reported_cong [OF tr cl])
  moreover have "list_all (timer_reported s') (timers s) = list_all (timer_reported s) (timers s)"
    by (rule list.pred_cong) (simp_all add: timer_reported_cong [OF tr])
  ultimately show ?thesis
    by (simp only: consistent_def stamped_def tr cl ta ti)
qed

lemma consistent_fields:
  "consistent (s\<lparr>isRunning := b\<rparr>) = consistent s"
  "consistent (s\<lparr>executingCommands := X\<rparr>) = consistent s"
  "consistent (s\<lparr>document := d\<rparr>) = consistent s"
  by (rule consistent_cong; simp)+

lemma consistent_quiet:
  assumes "consistent s" and "trace s' = trace s" and "clock s \<le> clock s'"
      and "set (tasks s') \<subseteq> insert AwaitingCommands (insert Finished (set (tasks s)))"
      and "set (timers s') \<subseteq> insert (due, Poll) (set (timers s))"
  shows "consistent s'"
proof (rule consistent_grow [OF assms(1), of _ "[]"])
  show "trace s' = trace s @ []" using assms(2) by simp
  show "\<forall>x \<in> set []. fst x \<le> clock s'" by simp
  show "clock s \<le> clock s'" by (rule assms(3))
  show "\<forall>t \<in> set (tasks s'). t \<in> set (tasks s) \<or> task_reported s' t"
  proof
    fix t assume "t \<in> set (tasks s')"
    with assms(4) have "t = AwaitingCommands \<or> t = Finished \<or> t \<in> set (tasks s)" by blast
    then show "t \<in> set (tasks s) \<or> task_reported s' t" by auto
  qed
  show "\<forall>x \<in> set (timers s'). x \<in> set (timers s) \<or> timer_reported s' x"
  proof
    fix x assume "x \<in> set (timers s')"
    with assms(5) have "x = (due, Poll) \<or> x \<in> set (timers s)" by blast
    then show "x \<in> set (timers s) \<or> timer_reported s' x" by auto
  qed
qed

lemma consistent_emit: "consistent s \<Longrightarrow> consistent (emit e s)"
  by (rule consistent_grow [of s _ "[(clock s, e)]"]) (simp_all add: emit_simps)

lemma consistent_timeout_poll:
  assumes "consistent s"
  shows "consistent (setTimeout Poll d s)"
proof (rule consistent_quiet [OF assms, of _ "clock s + d"])
  show "trace (setTimeout Poll d s) = trace s" by (simp add: setTimeout_simps)
  show "clock s \<le> clock (setTimeout Poll d s)" by (simp add: setTimeout_simps)
  show "set (tasks (setTimeout Poll d s))
          \<subseteq> insert AwaitingCommands (insert Finished (set (tasks s)))"
    by (auto simp add: setTimeout_simps)
  show "set (timers (setTimeout Poll d s)) \<subseteq> insert (clock s + d, Poll) (set (timers s))"
    by (auto simp add: setTimeout_simps)
qed

lemma consistent_poll: "consistent s \<Longrightarrow> consistent (pollCommands s)"
proof (cases "isRunning s")
  case False
  then show "consistent s \<Longrightarrow> consistent (pollCommands s)" by (simp add: pollCommands_def)
next
  case True
  assume c: "consistent s"
  let ?s1 = "emit GetCommands s"
  have c1: "consistent ?s1" using c by (rule consistent_emit)
  have "consistent (?s1\<lparr>tasks := tasks s @ [AwaitingCommands]\<rparr>)"
  proof (rule consistent_quiet [OF c1, of _ 0])
    show "set (tasks (?s1\<lparr>tasks := tasks s @ [AwaitingCommands]\<rparr>))
            \<subseteq> insert AwaitingCommands (insert Finished (set (tasks ?s1)))"
      by (auto simp add: emit_simps)
    show "set (timers (?s1\<lparr>tasks := tasks s @ [AwaitingCommands]\<rparr>))
            \<subseteq> insert (0, Poll) (set (timers ?s1))"
      by auto
  qed simp_all
  then show "consistent (pollCommands s)" using True by (simp add: pollCommands_def)
qed

lemma consistent_elapse:
  assumes "consistent s"
  shows "consistent (s\<lparr>clock := clock s + d\<rparr>)"
proof (rule consistent_quiet [OF assms, of _ 0])
  show "set (tasks (s\<lparr>clock := clock s + d\<rparr>))
          \<subseteq> insert AwaitingCommands (insert Finished (set (tasks s)))"
    by auto
  show "set (timers (s\<lparr>clock := clock s + d\<rparr>)) \<subseteq> insert (0, Poll) (set (timers s))"
    by auto
qed simp_all

lemma consistent_without_timer:
  assumes "consistent s"
  shows "consistent (s\<lparr>timers := take j (timers s) @ drop (Suc j) (timers s)\<rparr>)"
proof (rule consistent_quiet [OF assms, of _ 0])
  show "set (timers (s\<lparr>timers := take j (timers s) @ drop (Suc j) (timers s)\<rparr>))
          \<subseteq> insert (0, Poll) (set (timers s))"
    using set_without [of j "timers s"] by auto
  show "set (tasks (s\<lparr>timers := take j (timers s) @ drop (Suc j) (timers s)\<rparr>))
          \<subseteq> insert AwaitingCommands (insert Finished (set (tasks s)))"
    by auto
qed simp_all

lemma consistent_finish:
  assumes "consistent s" and "reported_before (id_c cmd) (clock s + 5000) s"
  shows "consistent (finish_iteration cmd s)"
proof (rule consistent_grow [OF assms(1), of _ "[]"])
  have "reported_before (id_c cmd) (clock s + 5000) (finish_iteration cmd s)"
    using assms(2) by (simp add: reported_before_def finish_iteration_simps)
  then show "\<forall>x \<in> set (timers (finish_iteration cmd s)).
               x \<in> set (timers s) \<or> timer_reported (finish_iteration cmd s) x"
    by (auto simp add: finish_iteration_simps)
qed (simp_all add: finish_iteration_simps)

lemma consistent_resume:
  assumes "consistent s1" and "task_reported s1 t"
  shows "consistent (resume k (s1, t))"
proof (rule consistent_grow [OF assms(1), of _ "[]"])
  have same: "\<And>x. task_reported (resume k (s1, t)) x = task_reported s1 x"
    by (case_tac x) (simp_all add: reported_before_def resume_simps)
  show "\<forall>x \<in> set (tasks (resume k (s1, t))). x \<in> set (tasks s1) \<or> task_reported (resume k (s1, t)) x"
    using set_resume [of k s1 t] assms(2) by (auto simp add: same)
qed (simp_all add: resume_simps)

lemma consistent_run_loop:
  assumes "consistent s"
  shows "consistent (resume k (run_loop pf cmds s))"
proof (rule consistent_after_loop [OF assms, of s "[]"])
  show "\<forall>x \<in> set (timers s). x \<in> set (timers s) \<or> timer_reported s x" by simp
qed simp_all

lemma consistent_receive: "consistent s \<Longrightarrow> consistent (receive m s)"
  by (cases m)
     (simp_all add: consistent_emit consistent_poll consistent_fields)

lemma consistent_step:
  assumes c: "consistent s"
  shows "consistent (step pf e s)"
proof (cases e)
  case (Message m)
  then show ?thesis using c by (simp add: consistent_receive)
next
  case (CommandsSettled k r)
  show ?thesis
    using c
    by (cases "task_at s k"; cases r)
       (simp_all add: CommandsSettled consistent_run_loop consistent_resume consistent_timeout_poll)
next
  case (HandlerSettled k)
  show ?thesis
  proof (cases "task_at s k")
    case (AwaitingHandler cmd rest out)
    have "\<And>r c. task_reported (emit (PostComplete (id_c cmd) r) s) (AwaitingReport cmd rest c)"
      by (simp add: reported_before_def emit_simps)
    then show ?thesis
      using c AwaitingHandler
      by (cases out) (simp_all add: HandlerSettled consistent_resume consistent_emit)
  qed (simp_all add: HandlerSettled c)
next
  case (ReportSettled k r)
  show ?thesis
  proof (cases "task_at s k")
    case (AwaitingReport cmd rest caught)
    have rep: "reported_before (id_c cmd) (clock s + 5000) s"
      using c AwaitingReport by (rule task_at_reported)
    have fin: "consistent (finish_iteration cmd s)"
      using c rep by (rule consistent_finish)
    have fin2: "\<And>n. consistent (finish_iteration cmd (emit n s))"
    proof -
      fix n
      have "reported_before (id_c cmd) (clock (emit n s) + 5000) (emit n s)"
        using rep by (rule reported_before_mono) (simp_all add: emit_simps)
      then show "consistent (finish_iteration cmd (emit n s))"
        using consistent_emit [OF c] consistent_finish by blast
    qed
    have post: "\<And>r c. task_reported (emit (PostComplete (id_c cmd) r) s) (AwaitingReport cmd rest c)"
      by (simp add: reported_before_def emit_simps)
    have again: "\<And>r m. consistent (resume k (emit (PostComplete (id_c cmd) r) s,
                                          AwaitingReport cmd rest m))"
      using consistent_emit [OF c] post by (rule consistent_resume)
    have stop: "consistent (resume k (setTimeout Poll POLL_INTERVAL (finish_iteration cmd s), Finished))"
      using consistent_timeout_poll [OF fin] by (rule consistent_resume) simp
    show ?thesis
      using AwaitingReport
      by (cases r; cases caught)
         (simp_all add: ReportSettled consistent_run_loop fin2 again stop)
  qed (simp_all add: ReportSettled c)
next
  case (TimerFired j)
  show ?thesis
  proof (cases "j < length (timers s) \<and> fst (timers s ! j) \<le> clock s")
    case False
    then show ?thesis using c by (auto simp add: TimerFired)
  next
    case True
    have "consistent (s\<lparr>timers := take j (timers s) @ drop (Suc j) (timers s)\<rparr>)"
      using c by (rule consistent_without_timer)
    then show ?thesis
      using True
      by (cases "snd (timers s ! j)")
         (simp_all add: TimerFired consistent_fields consistent_poll)
  qed
next
  case (Elapse d)
  then show ?thesis using c by (simp add: consistent_elapse)
qed

lemma consistent_initial: "consistent (initial doc)"
  by (simp add: consistent_def stamped_def initial_def)

lemma consistent_run: "consistent s \<Longrightarrow> consistent (run pf evs s)"
  by (induction evs arbitrary: s) (simp_all add: consistent_step)

lemma evicting_timer_reported:
  assumes "consistent s" and "j < length (timers s)" and "timers s ! j = (due, Evict i)"
  shows "reported_before i due s"
proof -
  have "timer_reported s (timers s ! j)"
    using assms(1,2) by (simp add: consistent_def list_all_length)
  then show ?thesis using assms(3) by simp
qed

text \<open>
  C1 (at-most-once dispatch under re-poll, as the packaged script has it). A polled
  command whose id is in \<open>executingCommands\<close> is skipped entirely: the loop goes on with
  the rest of the response as if the command were not there. While an id is in the set, no
  step of the script dispatches it; and over any run in which the id, once in the set, is
  never taken out, it is dispatched at most once (not at all if it was in the set from the
  start), whatever poll responses overlap. In every state that the script reaches from its
  start, an id leaves the set in two ways only: by a start or stop message of the UI, which
  empties the set at once; or by the eviction timer set in the \<open>finally\<close> block, and then
  a completion report for that id was posted at least 5000 ms earlier.
\<close>

theorem in_flight_guard:
  "(id_c cmd \<in> executingCommands s
      \<longrightarrow> run_loop pf (cmd # rest) s = run_loop pf rest s)
   \<and> (i \<in> executingCommands s
      \<longrightarrow> dispatches i (step pf e s) = dispatches i s)
   \<and> ((\<forall>n < length evs. i \<in> executingCommands (run pf (take n evs) s)
             \<longrightarrow> i \<in> executingCommands (run pf (take (Suc n) evs) s))
      \<longrightarrow> dispatches i (run pf evs s)
            \<le> dispatches i s + (if i \<in> executingCommands s then 0 else 1))
   \<and> (i \<in> executingCommands (run pf evs (initial doc))
       \<and> i \<notin> executingCommands (step pf e (run pf evs (initial doc)))
      \<longrightarrow> (\<exists>m. e = Message m)
          \<or> (\<exists>j due. e = TimerFired j
                \<and> j < length (timers (run pf evs (initial doc)))
                \<and> timers (run pf evs (initial doc)) ! j = (due, Evict i)
                \<and> reported_before i due (run pf evs (initial doc))
                \<and> due \<le> clock (run pf evs (initial doc))))"
proof (intro conjI impI)
  assume "id_c cmd \<in> executingCommands s"
  then show "run_loop pf (cmd # rest) s = run_loop pf rest s"
    by (rule run_loop_skip)
next
  assume "i \<in> executingCommands s"
  then show "dispatches i (step pf e s) = dispatches i s"
    using step_dispatch [of i pf e s] by simp
next
  assume "\<forall>n < length evs. i \<in> executingCommands (run pf (take n evs) s)
             \<longrightarrow> i \<in> executingCommands (run pf (take (Suc n) evs) s)"
  then show "dispatches i (run pf evs s)
            \<le> dispatches i s + (if i \<in> executingCommands s then 0 else 1)"
    by (rule run_at_most_once)
next
  define s' where "s' = run pf evs (initial doc)"
  assume "i \<in> executingCommands (run pf evs (initial doc))
          \<and> i \<notin> executingCommands (step pf e (run pf evs (initial doc)))"
  then have a: "i \<in> executingCommands s'" and b: "i \<notin> executingCommands (step pf e s')"
    by (simp_all add: s'_def)
  have c: "consistent s'"
    unfolding s'_def using consistent_initial by (rule consistent_run)
  have "(\<exists>m. e = Message m)
          \<or> (\<exists>j due. e = TimerFired j \<and> j < length (timers s')
                \<and> timers s' ! j = (due, Evict i)
                \<and> reported_before i due s' \<and> due \<le> clock s')"
    using step_keeps_or_evicts [OF a b]
  proof
    assume "\<exists>m. e = Message m"
    then show ?thesis by (rule disjI1)
  next
    assume "\<exists>j due. e = TimerFired j \<and> j < length (timers s')
                  \<and> timers s' ! j = (due, Evict i) \<and> due \<le> clock s'"
    then obtain j due where e: "e = TimerFired j" and j: "j < length (timers s')"
      and t: "timers s' ! j = (due, Evict i)" and d: "due \<le> clock s'"
      by blast
    have "reported_before i due s'" using c j t by (rule evicting_timer_reported)
    with e j t d show ?thesis by blast
  qed
  then show "(\<exists>m. e = Message m)
          \<or> (\<exists>j due. e = TimerFired j
                \<and> j < length (timers (run pf evs (initial doc)))
                \<and> timers (run pf evs (initial doc)) ! j = (due, Evict i)
                \<and> reported_before i due (run pf evs (initial doc))
                \<and> due \<le> clock (run pf evs (initial doc)))"
    by (simp only: s'_def)
qed

lemmas exec_eval =
  initial_def pollCommands_def emit_def setTimeout_def task_at_def resume_def
  finish_iteration_def type_text_def lookup_handler_def handler_names_def
  object_prototype_names_def sample_platform_def POLL_INTERVAL_def Let_def

lemma sample_command_eq:
  "sample_command = \<lparr>type = Some ''create_frame'', params = Some (JObj [(''name'', JStr ''Hero'')]),
                   result = None, error = None, completedAt = None,
                   id_c = ''cmd_1700_k3x9q'', status = pending, createdAt = 1700\<rparr>"
  by (simp add: sample_command_def new_command_def sample_spec_def
      sample_entropy_def sample_id CommandSpec.extend_def)

lemma sample_inflight_eq:
  "sample_inflight =
     \<lparr>isRunning = True, executingCommands = {''cmd_1700_k3x9q''}, timers = [], clock = 0,
      tasks = [AwaitingHandler sample_command []
                 (Returned (Some (JObj [(''done'', JStr ''create_frame'')])))],
      document = (),
      trace = [(0, GetCommands), (0, Notify False ''Connected to MCP Bridge''),
               (0, UiMessage ''connection_success''),
               (0, Executing (Some ''create_frame'') ''cmd_1700_k3x9q'')]\<rparr>"
  by (simp add: sample_inflight_def exec_eval sample_command_eq)

lemma sample_reported_eq:
  "sample_reported =
     \<lparr>isRunning = True, executingCommands = {''cmd_1700_k3x9q''},
      timers = [(5000, Evict ''cmd_1700_k3x9q''), (1000, Poll)], clock = 5000,
      tasks = [Finished],
      document = (),
      trace = [(0, GetCommands), (0, Notify False ''Connected to MCP Bridge''),
               (0, UiMessage ''connection_success''),
               (0, Executing (Some ''create_frame'') ''cmd_1700_k3x9q''),
               (0, PostComplete ''cmd_1700_k3x9q''
                     (ReportResult (Some (JObj [(''done'', JStr ''create_frame'')])))),
               (0, Notify False ''create_frame'')]\<rparr>"
  by (simp add: sample_reported_def exec_eval sample_command_eq)

lemma sample_connected_eq:
  "sample_connected =
     \<lparr>isRunning = True, executingCommands = {}, timers = [], clock = 0,
      tasks = [AwaitingCommands], document = (),
      trace = [(0, GetCommands), (0, Notify False ''Connected to MCP Bridge''),
               (0, UiMessage ''connection_success'')]\<rparr>"
  by (simp add: sample_connected_def exec_eval)

lemma all_less_two: "(\<forall>n < Suc (Suc 0). P n) = (P 0 \<and> P (Suc 0))"
  by (auto simp add: less_Suc_eq)

text \<open>
  C1, an instance: while the sample command is in flight a second poll response with the
  same id dispatches nothing; five seconds after its report the timer takes the id out.
\<close>

theorem in_flight_guard_witness:
  "id_c sample_command \<in> executingCommands sample_inflight
   \<and> run_loop sample_platform [sample_command] sample_inflight
       = run_loop sample_platform [] sample_inflight
   \<and> dispatches ''cmd_1700_k3x9q''
        (step sample_platform (CommandsSettled 0 (Some [sample_command])) sample_inflight)
       = dispatches ''cmd_1700_k3x9q'' sample_inflight
   \<and> dispatches ''cmd_1700_k3x9q''
        (run sample_platform [HandlerSettled 0, ReportSettled 0 None] sample_inflight) = 1
   \<and> ''cmd_1700_k3x9q'' \<in> executingCommands sample_reported
   \<and> ''cmd_1700_k3x9q'' \<notin> executingCommands (step sample_platform (TimerFired 0) sample_reported)
   \<and> timers sample_reported ! 0 = (5000, Evict ''cmd_1700_k3x9q'')
   \<and> reported_before ''cmd_1700_k3x9q'' 5000 sample_reported
   \<and> clock sample_reported = 5000"
proof -
  have i: "id_c sample_command \<in> executingCommands sample_inflight"
    by (simp add: sample_inflight_eq sample_command_eq)
  have j: "''cmd_1700_k3x9q'' \<in> executingCommands sample_inflight"
    by (simp add: sample_inflight_eq)
  have held: "\<forall>n < length [HandlerSettled 0, ReportSettled 0 None].
      ''cmd_1700_k3x9q'' \<in> executingCommands
         (run sample_platform (take n [HandlerSettled 0, ReportSettled 0 None]) sample_inflight)
      \<longrightarrow> ''cmd_1700_k3x9q'' \<in> executingCommands
         (run sample_platform (take (Suc n) [HandlerSettled 0, ReportSettled 0 None]) sample_inflight)"
    by (simp add: all_less_two sample_inflight_eq exec_eval sample_command_eq)
  have ev: "''cmd_1700_k3x9q'' \<in> executingCommands
              (run sample_platform
                 [Message (Start True), CommandsSettled 0 (Some [sample_command]),
                  HandlerSettled 0, ReportSettled 0 None, Elapse 5000] (initial ()))
            \<and> ''cmd_1700_k3x9q'' \<notin> executingCommands
              (step sample_platform (TimerFired 0)
                 (run sample_platform
                    [Message (Start True), CommandsSettled 0 (Some [sample_command]),
                     HandlerSettled 0, ReportSettled 0 None, Elapse 5000] (initial ())))"
    using sample_reported_eq by (simp add: sample_reported_def)
  note g = in_flight_guard [where cmd = sample_command and s = sample_inflight
      and pf = sample_platform and rest = "[]" and i = "''cmd_1700_k3x9q''"
      and e = "CommandsSettled 0 (Some [sample_command])"
      and evs = "[HandlerSettled 0, ReportSettled 0 None]"]
  note h = in_flight_guard [where pf = sample_platform and i = "''cmd_1700_k3x9q''"
      and e = "TimerFired 0" and doc = "()"
      and evs = "[Message (Start True), CommandsSettled 0 (Some [sample_command]),
                  HandlerSettled 0, ReportSettled 0 None, Elapse 5000]"]
  have d0: "dispatches ''cmd_1700_k3x9q'' sample_inflight = 1"
    by (simp add: sample_inflight_eq dispatches_def)
  have d1: "dispatches ''cmd_1700_k3x9q''
        (run sample_platform [HandlerSettled 0, ReportSettled 0 None] sample_inflight) = 1"
    by (simp add: sample_inflight_eq exec_eval sample_command_eq dispatches_def)
  have rest: "timers sample_reported ! 0 = (5000, Evict ''cmd_1700_k3x9q'')
     \<and> reported_before ''cmd_1700_k3x9q'' 5000 sample_reported
     \<and> clock sample_reported = 5000"
    by (simp add: sample_reported_eq reported_before_def)
  from g i j held have a: "run_loop sample_platform [sample_command] sample_inflight
       = run_loop sample_platform [] sample_inflight"
    and b: "dispatches ''cmd_1700_k3x9q''
        (step sample_platform (CommandsSettled 0 (Some [sample_command])) sample_inflight)
       = dispatches ''cmd_1700_k3x9q'' sample_inflight"
    by blast+
  from ev have c: "''cmd_1700_k3x9q'' \<in> executingCommands sample_reported
   \<and> ''cmd_1700_k3x9q'' \<notin> executingCommands (step sample_platform (TimerFired 0) sample_reported)"
    by (simp add: sample_reported_def)
  show ?thesis
    using i a b d1 c rest h by simp
qed

text \<open>
  C1, the claim as stated fails: a stop message takes the id out of the set at once, with
  no report posted and no time passed; after a restart the same command, still served as
  pending, is dispatched a second time while its first handler has not settled.
\<close>

theorem eviction_on_stop_counterexample:
  "executingCommands sample_inflight = {''cmd_1700_k3x9q''}
   \<and> executingCommands (step sample_platform (Message Stop) sample_inflight) = {}
   \<and> map snd (trace (step sample_platform (Message Stop) sample_inflight))
       = [GetCommands, Notify False ''Connected to MCP Bridge'', UiMessage ''connection_success'',
          Executing (Some ''create_frame'') ''cmd_1700_k3x9q'',
          Notify False ''Disconnected from MCP Bridge'', UiMessage ''disconnected'']
   \<and> clock (step sample_platform (Message Stop) sample_inflight) = 0
   \<and> dispatches ''cmd_1700_k3x9q''
         (run sample_platform
            [Message Stop, Message (Start True), CommandsSettled 1 (Some [sample_command])]
            sample_inflight) = 2"
  by (simp add: sample_inflight_eq exec_eval dispatches_def sample_command_eq)

subsection \<open>Command types outside the handler table\<close>

lemma unknown_type_reported:
  assumes "lookup_handler (type_text cmd) = None"
      and "id_c cmd \<notin> executingCommands s"
  shows "trace (fst (run_loop pf (cmd # rest) s))
           = trace s @ [(clock s, Executing (type cmd) (id_c cmd)),
                        (clock s, PostComplete (id_c cmd)
                                    (ReportError (''Unknown command type: '' @ type_text cmd)))]
         \<and> snd (run_loop pf (cmd # rest) s)
           = AwaitingReport cmd rest (Some (''Unknown command type: '' @ type_text cmd))"
  using assms by (auto simp add: Let_def emit_def)

text \<open>
  C7, at the type \<open>constructor\<close>: the handler table has no entry of that name, but the
  look-up finds \<open>Object\<close> through the prototype chain, so the script does not throw
  \<open>Unknown command type\<close>; the call returns its argument, and the executor posts a success
  report and notifies success. A type that is found neither in the table nor on
  \<open>Object.prototype\<close> is reported with the error message, as the claim has it.
\<close>

theorem constructor_reported_as_success:
  "lookup_handler ''constructor'' = Some (Inherited ''constructor'')
   \<and> map snd (trace (run sample_platform
        [CommandsSettled 0
           (Some [typed_command ''constructor'' (Some (JObj [(''name'', JStr ''Hero'')]))]),
         HandlerSettled 0, ReportSettled 0 None] sample_connected))
     = [GetCommands, Notify False ''Connected to MCP Bridge'', UiMessage ''connection_success'',
        Executing (Some ''constructor'') ''cmd_1700_k3x9q'',
        PostComplete ''cmd_1700_k3x9q'' (ReportResult (Some (JObj [(''name'', JStr ''Hero'')]))),
        Notify False ''constructor'']
   \<and> map snd (trace (run sample_platform
        [CommandsSettled 0 (Some [typed_command ''no_such'' (Some (JObj [(''name'', JStr ''Hero'')]))])]
        sample_connected))
     = [GetCommands, Notify False ''Connected to MCP Bridge'', UiMessage ''connection_success'',
        Executing (Some ''no_such'') ''cmd_1700_k3x9q'',
        PostComplete ''cmd_1700_k3x9q'' (ReportError ''Unknown command type: no_such'')]"
  by (simp add: exec_eval sample_connected_eq typed_command_def js_Object_def)

subsection \<open>Batches\<close>

lemma js_get_value:
  "item \<noteq> JNull \<Longrightarrow> js_get item k = Inr (case js_get item k of Inl e \<Rightarrow> None | Inr p \<Rightarrow> p)"
  by (cases item) simp_all







lemma batch_loop_unreadable:
  assumes "\<not> readable pf cmd"
  shows "\<exists>f. batch_loop pf (cmd # rest) acc doc = (Threw (message_of pf f), doc)"
proof (cases "cmd = JNull")
  case True
  then show ?thesis by auto
next
  case False
  then have t: "js_get cmd ''type'' = Inr (item_type cmd)"
    using js_get_value [OF False] by (simp add: item_type_def)
  obtain f where "property_key pf (item_type cmd) = Inl f"
    using assms False by (auto simp add: readable_def split: sum.splits)
  then show ?thesis by (auto simp add: t)
qed









lemmas batch_eval =
  batch_params_def sub_command_def property_key_def handler_of_def handled_def readable_def
  item_type_def item_params_def success_entry_def failure_entry_def field_def batch_result_def
  lookup_handler_def handler_names_def object_prototype_names_def sample_platform_def




lemma batch_throws_sample:
  "batch sample_platform None () = (Threw ''Cannot read properties of null'', ())
   \<and> batch sample_platform (Some (JObj [(''commands'', JNum 7)])) ()
       = (Threw ''object is not iterable'', ())
   \<and> batch sample_platform (Some (JObj [(''commands'', JArr [sub_command ''create_frame'', JNull])])) ()
       = (Threw ''Cannot read properties of null'', ())
   \<and> batch sample_platform
         (Some (JObj [(''commands'',
            JArr [sub_command ''create_frame'', JObj [(''type'', JObj [(''toString'', JNull)])]])])) ()
       = (Threw ''Cannot convert object to primitive value'', ())"
  by (simp add: batch_eval)




end
